theory Spec2Isabelle
  imports Main "HOL-Library.Word"
begin

unbundle bit_operations_syntax

section \<open>Candidate search engine (src/common/search.cpp, src/common/include/search.hpp)\<close>

text \<open>
  Machine integers. The architecture directory of the sources is \<open>x86_32\<close>, so
  \<open>size_t\<close> and \<open>uintptr_t\<close> are 32-bit unsigned words; \<open>uint8_t\<close> is an 8-bit word.
\<close>

type_synonym u8 = "8 word"
type_synonym u32 = "32 word"
type_synonym size_t = "32 word"

text \<open>
  \<open>struct instruction_bytes { uint8_t raw[15]; }\<close>. The array is a function from the index
  to the byte; only the indices below 15 exist in the program, and every operation below
  that indexes the array with a computed index checks the index against 15 first and
  yields the fault \<open>OutOfBounds\<close> where the C++ program would touch memory outside the
  array.
\<close>

record instruction_bytes =
  raw :: "nat \<Rightarrow> u8"

text \<open>
  The variadic constructor \<open>instruction_bytes(T... v) : raw {(uint8_t)v...}\<close>: the bytes
  given, the rest of the array zero.
\<close>

definition mk_instruction_bytes :: "u8 list \<Rightarrow> instruction_bytes" where
  "mk_instruction_bytes vs = \<lparr>raw = (\<lambda>i. if i < length vs \<and> i < 15 then vs ! i else 0)\<rparr>"

text \<open>
  \<open>detect_prefixes\<close> and \<open>used_prefixes\<close> are read by \<open>opcode_to_prefix_group\<close> and by
  \<open>prefix_state::has_unused_prefixes\<close> as plain identifiers of the enclosing scope (not the
  members \<open>used_prefixes_m\<close>, \<open>group_lut_m\<close> of \<open>search_engine\<close>, which a static function and
  a method of \<open>prefix_state\<close> cannot see). Their declaration is not in the files at hand, so
  they are parameters of the model.
\<close>

record globals =
  detect_prefixes :: size_t
  used_prefixes :: size_t

text \<open>\<open>opcode_to_prefix_group\<close>: the \<open>switch\<close> over the byte; the cases are disjoint.\<close>

definition opcode_to_prefix_group :: "size_t \<Rightarrow> u8 \<Rightarrow> int" where
  "opcode_to_prefix_group dp byte =
    (if byte = 0xF0 \<or> byte = 0xF2 \<or> byte = 0xF3 then
       (if dp AND push_bit 0 1 \<noteq> 0 then 0 else -1)
     else if byte = 0x2E \<or> byte = 0x36 \<or> byte = 0x3E \<or> byte = 0x26 \<or> byte = 0x64 \<or> byte = 0x65 then
       (if dp AND push_bit 1 1 \<noteq> 0 then 1 else -1)
     else if byte = 0x66 then
       (if dp AND push_bit 2 1 \<noteq> 0 then 2 else -1)
     else if byte = 0x67 then
       (if dp AND push_bit 3 1 \<noteq> 0 then 3 else -1)
     else if 0x40 \<le> byte \<and> byte \<le> 0x4F then
       (if dp AND push_bit 4 1 \<noteq> 0 then 4 else -1)
     else -1)"

text \<open>
  \<open>struct prefix_lut { int8_t data[256]; }\<close> and \<open>create_prefix_group_lut\<close>: entry \<open>i\<close> is
  \<open>(int8_t)opcode_to_prefix_group((uint8_t)i)\<close>; the values -1..4 fit \<open>int8_t\<close>.
\<close>

type_synonym prefix_lut = "int list"

definition create_prefix_group_lut :: "size_t \<Rightarrow> prefix_lut" where
  "create_prefix_group_lut dp = map (\<lambda>i. opcode_to_prefix_group dp (of_nat i)) [0..<256]"

text \<open>
  \<open>static prefix_lut prefix_group_lut {create_prefix_group_lut()}\<close>: the file-scope table,
  initialised once from the file-scope \<open>detect_prefixes\<close>.
\<close>

definition prefix_group_lut :: "globals \<Rightarrow> prefix_lut" where
  "prefix_group_lut G = create_prefix_group_lut (detect_prefixes G)"

text \<open>\<open>struct prefix_state\<close>: \<open>uint8_t count[5] {}\<close> and \<open>uint8_t position[5] {}\<close>.\<close>

record prefix_state =
  count :: "u8 list"
  position :: "u8 list"

definition prefix_state_init :: prefix_state where
  "prefix_state_init = \<lparr>count = replicate 5 0, position = replicate 5 0\<rparr>"

definition total_prefix_bytes :: "prefix_state \<Rightarrow> size_t" where
  "total_prefix_bytes st = foldl (\<lambda>sum c. sum + ucast c) 0 (count st)"

definition has_duplicated_prefixes :: "prefix_state \<Rightarrow> bool" where
  "has_duplicated_prefixes st = list_ex (\<lambda>c. 2 \<le> c) (count st)"

definition has_unused_prefixes :: "globals \<Rightarrow> prefix_state \<Rightarrow> bool" where
  "has_unused_prefixes G st =
     list_ex (\<lambda>i. count st ! i \<noteq> 0 \<and> (used_prefixes G AND push_bit i 1) = 0) [0..<5]"

definition has_ordered_prefixes :: "prefix_state \<Rightarrow> bool" where
  "has_ordered_prefixes st =
     list_all (\<lambda>i. list_all (\<lambda>j.
         \<not> (count st ! i \<noteq> 0 \<and> count st ! j \<noteq> 0 \<and> position st ! i > position st ! j))
       [i + 1..<5]) [0..<5 - 1]"

text \<open>
  \<open>analyze_prefixes\<close>: the \<open>for\<close> loop over \<open>i < sizeof(instr.raw)\<close> with its \<open>break\<close>. The loop
  variable and the state built so far are the arguments of the recursion. The table is
  indexed by a byte, so the index is below 256; a non-negative entry of the table that
  \<open>create_prefix_group_lut\<close> builds is at most 4 (\<open>opcode_to_prefix_group_range\<close> below), so
  \<open>count[group]\<close> and \<open>position[group]\<close> stay inside their five entries.
\<close>

function analyze_loop :: "prefix_lut \<Rightarrow> instruction_bytes \<Rightarrow> nat \<Rightarrow> prefix_state \<Rightarrow> prefix_state" where
  "analyze_loop lut instr i st =
    (if i < 15 then
       (let group = lut ! unat (raw instr i) in
        if group < 0 then st
        else analyze_loop lut instr (i + 1)
               (st\<lparr>count := (count st)[nat group := count st ! nat group + 1],
                   position := (position st)[nat group := of_nat i]\<rparr>))
     else st)"
  by pat_completeness auto
termination
  by (relation "measure (\<lambda>(lut, instr, i, st). 15 - i)") auto

declare analyze_loop.simps [simp del]

definition analyze_prefixes :: "globals \<Rightarrow> instruction_bytes \<Rightarrow> prefix_state" where
  "analyze_prefixes G instr = analyze_loop (prefix_group_lut G) instr 0 prefix_state_init"

text \<open>
  \<open>class search_engine\<close>. An Isabelle name cannot end in an underscore, so a member
  \<open>name_\<close> of the class is the field \<open>name_m\<close> here, also where the text below quotes the
  source. \<open>group_lut_m\<close> is the member of class \<open>prefix_group_lut\<close>, a table
  \<open>int8_t data[256]\<close>.
\<close>

record search_engine =
  current_m :: instruction_bytes
  increment_at_m :: size_t
  max_prefixes_m :: size_t
  used_prefixes_m :: size_t
  group_lut_m :: prefix_lut

text \<open>
  Modelled from the spec: the constructor \<open>prefix_group_lut::prefix_group_lut(size_t)\<close> is
  only declared in search.hpp (``Prototype!''); its body is missing. The spec says the
  table is ``a 256-entry mapping from byte value to prefix-group id (or "not a prefix"),
  built once from a configuration bitmask at engine-construction time''.
\<close>

definition prefix_group_lut_ctor :: "size_t \<Rightarrow> prefix_lut" where
  "prefix_group_lut_ctor detect = create_prefix_group_lut detect"

text \<open>
  The constructor \<open>search_engine(max_prefixes = 0, used_prefixes = 0xFF,
  detect_prefixes = 0xFF, start = {})\<close>; \<open>increment_at_m\<close> has the default initialiser 0.
\<close>

definition mk_search_engine :: "size_t \<Rightarrow> size_t \<Rightarrow> size_t \<Rightarrow> instruction_bytes \<Rightarrow> search_engine" where
  "mk_search_engine max_prefixes used detect start =
     \<lparr>current_m = start, increment_at_m = 0, max_prefixes_m = max_prefixes,
      used_prefixes_m = used, group_lut_m = prefix_group_lut_ctor detect\<rparr>"

definition get_candidate :: "search_engine \<Rightarrow> instruction_bytes" where
  "get_candidate e = current_m e"

text \<open>
  \<open>clear_after\<close>: \<open>memset(current_m.raw + pos, 0, sizeof(current_m.raw) - pos)\<close> under the guard
  \<open>pos < sizeof(current_m.raw)\<close>. \<open>memset_zero a p n\<close> writes \<open>n\<close> zero bytes from index \<open>p\<close> on.
\<close>

fun memset_zero :: "(nat \<Rightarrow> u8) \<Rightarrow> nat \<Rightarrow> nat \<Rightarrow> (nat \<Rightarrow> u8)" where
  "memset_zero a p 0 = a"
| "memset_zero a p (Suc n) = memset_zero (a(p := 0)) (Suc p) n"

definition clear_after :: "size_t \<Rightarrow> search_engine \<Rightarrow> search_engine" where
  "clear_after pos e =
     (if pos < 15 then
        e\<lparr>current_m := (current_m e)\<lparr>raw := memset_zero (raw (current_m e)) (unat pos) (unat (15 - pos))\<rparr>\<rparr>
      else e)"

definition start_over :: "size_t \<Rightarrow> search_engine \<Rightarrow> search_engine" where
  "start_over len e = e\<lparr>increment_at_m := len - 1\<rparr>"

text \<open>
  \<open>find_next_candidate\<close>. The label \<open>again\<close> is the head of the recursion. An access
  \<open>current_m.raw[increment_at_m]\<close> with \<open>increment_at_m\<close> not below 15 is outside the array
  (undefined behaviour in C++): the model stops there with \<open>OutOfBounds\<close>. The
  post-decrement \<open>increment_at_m--\<close> is carried out also on the path that returns false.
\<close>

datatype fault = OutOfBounds

function find_next_candidate :: "globals \<Rightarrow> search_engine \<Rightarrow> fault + (bool \<times> search_engine)" where
  "find_next_candidate G e =
    (if \<not> increment_at_m e < 15 then Inl OutOfBounds
     else
       (let i = unat (increment_at_m e);
            e1 = e\<lparr>current_m := (current_m e)\<lparr>raw := (raw (current_m e))(i := raw (current_m e) i + 1)\<rparr>\<rparr>
        in
        if raw (current_m e1) i = 0 then
          (if increment_at_m e = 0 then Inr (False, e1\<lparr>increment_at_m := increment_at_m e - 1\<rparr>)
           else find_next_candidate G (e1\<lparr>increment_at_m := increment_at_m e - 1\<rparr>))
        else
          (let state = analyze_prefixes G (current_m e1) in
           if total_prefix_bytes state > max_prefixes_m e1 \<or>
              has_duplicated_prefixes state \<or>
              has_unused_prefixes G state \<or>
              \<not> has_ordered_prefixes state
           then find_next_candidate G e1
           else Inr (True, e1))))"
  by pat_completeness auto
termination
proof (relation "measures [\<lambda>(G, e). unat (increment_at_m e),
                           \<lambda>(G, e). 256 - unat (raw (current_m e) (unat (increment_at_m e)))]",
       goal_cases)
  case 1
  show ?case by simp
next
  case (2 G e i e1)
  then have "increment_at_m e \<noteq> 0" by simp
  then have "unat (increment_at_m e - 1) < unat (increment_at_m e)"
    by (simp add: unat_minus_one unat_gt_0)
  then show ?case using 2 by simp
next
  case (3 G e i e1 state)
  then have nz: "raw (current_m e) (unat (increment_at_m e)) + 1 \<noteq> 0" by simp
  have "unat (raw (current_m e) (unat (increment_at_m e)) + 1) =
        unat (raw (current_m e) (unat (increment_at_m e))) + 1"
    using nz unatSuc [of "raw (current_m e) (unat (increment_at_m e))"] by (simp add: add.commute)
  moreover have "unat (raw (current_m e) (unat (increment_at_m e)) + 1) < 256"
    by (rule order_less_le_trans [OF unsigned_less]) simp
  ultimately show ?case using 3 by simp
qed

declare find_next_candidate.simps [simp del]

text \<open>
  Three pieces of \<open>find_next_candidate\<close> that the proofs below speak about: the engine after
  the statement \<open>current_m.raw[increment_at_m]++\<close>, the engine after \<open>increment_at_m--\<close>, and
  the condition of the \<open>if\<close> that sends the candidate back to \<open>again\<close>.
\<close>

definition increment_current :: "search_engine \<Rightarrow> search_engine" where
  "increment_current e =
     e\<lparr>current_m := (current_m e)\<lparr>raw := (raw (current_m e))
        (unat (increment_at_m e) := raw (current_m e) (unat (increment_at_m e)) + 1)\<rparr>\<rparr>"

definition move_left :: "search_engine \<Rightarrow> search_engine" where
  "move_left e = e\<lparr>increment_at_m := increment_at_m e - 1\<rparr>"

definition rejected :: "globals \<Rightarrow> search_engine \<Rightarrow> bool" where
  "rejected G e =
     (let state = analyze_prefixes G (current_m e) in
      total_prefix_bytes state > max_prefixes_m e \<or>
      has_duplicated_prefixes state \<or>
      has_unused_prefixes G state \<or>
      \<not> has_ordered_prefixes state)"

subsection \<open>Prefix classification as the specification words it\<close>

text \<open>
  The specification: ``classify legacy prefixes by scanning the candidate left to right
  while consecutive bytes belong to a recognized prefix group, via the precomputed
  256-entry group table; stop classification at the first non-prefix byte or buffer end'',
  with ``per-candidate counts and byte positions of legacy-prefix occurrences''. The
  definitions below follow these words, not the loop: \<open>group_at\<close> is the table entry of
  the byte at an index, \<open>scanned_length\<close> the number of leading bytes of the 15 that are
  prefixes, \<open>positions_of\<close> the scanned indices whose byte is in a group, and
  \<open>analyze_prefixes_spec\<close> the counts and the last recorded position per group (zero, the
  initial value, for a group that does not occur).
\<close>

definition group_at :: "globals \<Rightarrow> instruction_bytes \<Rightarrow> nat \<Rightarrow> int" where
  "group_at G instr i = prefix_group_lut G ! unat (raw instr i)"

definition scanned_length :: "globals \<Rightarrow> instruction_bytes \<Rightarrow> nat" where
  "scanned_length G instr = length (takeWhile (\<lambda>i. 0 \<le> group_at G instr i) [0..<15])"

definition positions_of :: "globals \<Rightarrow> instruction_bytes \<Rightarrow> nat \<Rightarrow> nat \<Rightarrow> nat list" where
  "positions_of G instr n g = filter (\<lambda>i. group_at G instr i = int g) [0..<n]"

definition last_position :: "nat list \<Rightarrow> nat" where
  "last_position ps = (if ps = [] then 0 else last ps)"

definition scanned_state :: "globals \<Rightarrow> instruction_bytes \<Rightarrow> nat \<Rightarrow> prefix_state" where
  "scanned_state G instr n =
     \<lparr>count = map (\<lambda>g. of_nat (length (positions_of G instr n g))) [0..<5],
      position = map (\<lambda>g. of_nat (last_position (positions_of G instr n g))) [0..<5]\<rparr>"

definition analyze_prefixes_spec :: "globals \<Rightarrow> instruction_bytes \<Rightarrow> prefix_state" where
  "analyze_prefixes_spec G instr = scanned_state G instr (scanned_length G instr)"

text \<open>
  The caller's repeated calls: \<open>run_calls G n e\<close> calls \<open>find_next_candidate\<close> up to \<open>n + 1\<close>
  times on the engine, each call on the engine the one before left, and stops at the first
  call that does not return true; its value is the result of the last call made.
\<close>

fun run_calls :: "globals \<Rightarrow> nat \<Rightarrow> search_engine \<Rightarrow> fault + (bool \<times> search_engine)" where
  "run_calls G 0 e = find_next_candidate G e"
| "run_calls G (Suc n) e =
     (case find_next_candidate G e of
        Inr (True, e') \<Rightarrow> run_calls G n e'
      | r \<Rightarrow> r)"

section \<open>Paging bootstrap and exception entry (src/x86_32/arch.cpp)\<close>

text \<open>
  The machine state \<open>setup_paging\<close> works on: physical memory as a store of 32-bit
  entries addressed by their byte address (the page directory \<open>pdt\<close>, the user page table
  \<open>user_pt\<close> and the second-level tables written through \<open>reinterpret_cast<uint32_t*>\<close> all
  live in it, so a write past the end of one table lands in whatever follows), and the
  control registers that \<open>get_cr0/set_cr0\<close>, \<open>set_cr3\<close> and \<open>get_cr4/set_cr4\<close> access.
\<close>

record machine =
  mem :: "u32 \<Rightarrow> u32"
  cr0 :: u32
  cr3 :: u32
  cr4 :: u32

text \<open>
  What \<open>setup_paging\<close> takes from files that are not at hand, as parameters: the CPU
  feature tests \<open>has_pse()\<close>, \<open>has_wp()\<close>, \<open>has_smep()\<close>; the linker symbols \<open>_image_start\<close>
  and \<open>_image_end\<close>; the addresses of the static arrays \<open>pdt\<close>, \<open>user_pt\<close> and
  \<open>user_page_backing\<close>; the constants \<open>page_size\<close>, \<open>PTE_*\<close>, \<open>CR0_*\<close>, \<open>CR4_*\<close>; and the
  helper \<open>bit_select\<close> of util.hpp.
\<close>

record paging_env =
  has_pse :: bool
  has_wp :: bool
  has_smep :: bool
  image_start :: u32
  image_end :: u32
  pdt_addr :: u32
  user_pt_addr :: u32
  user_page_backing_addr :: u32
  page_size :: u32
  PTE_P :: u32
  PTE_W :: u32
  PTE_U :: u32
  PTE_PS :: u32
  CR0_PG :: u32
  CR0_WP :: u32
  CR4_PSE :: u32
  CR4_SMEP :: u32
  bit_select :: "nat \<Rightarrow> nat \<Rightarrow> u32 \<Rightarrow> u32"

text \<open>
  Modelled from the spec: the macro \<open>assert(condition, message)\<close> of util.hpp is missing.
  The spec says ``any geometry precondition violation (misaligned image, page overlap) is a
  fatal startup assertion, never recovered'': a failed assertion ends the run with its
  message, in the machine state reached at that point. \<open>UndefinedBehaviour\<close> is a run that
  reaches an operation C++ leaves undefined.
\<close>

datatype boot_result =
  AssertionFailed string machine | UndefinedBehaviour machine | PagingEnabled machine

definition write32 :: "u32 \<Rightarrow> u32 \<Rightarrow> machine \<Rightarrow> machine" where
  "write32 a v s = s\<lparr>mem := (mem s)(a := v)\<rparr>"

definition get_user_page :: "paging_env \<Rightarrow> u32" where
  "get_user_page E = push_bit 20 1 + page_size E"

text \<open>
  \<open>is_aligned(uint64_t v, int order)\<close>, with its own assertion \<open>order < sizeof(v)*8\<close>. The
  assertion lets a negative \<open>order\<close> pass, and \<open>uint64_t(1) << order\<close> with a negative count
  is undefined in C++: the function then has no value, \<open>Inl UndefinedShift\<close>.
\<close>

datatype align_stop = OrderAssertion string | UndefinedShift

definition is_aligned :: "64 word \<Rightarrow> int \<Rightarrow> align_stop + bool" where
  "is_aligned v order =
     (if \<not> order < 64 then Inl (OrderAssertion ''Order out of range'')
      else if order < 0 then Inl UndefinedShift
      else Inr (0 = v AND (push_bit (nat order) 1 - 1)))"

text \<open>
  The first loop of \<open>setup_paging\<close>, \<open>for (c = istart; c <= iend; c += 1U << 22)\<close>: one page
  directory entry per 4 MiB. \<open>c\<close> is a 32-bit word, so for an image that ends in the last
  4 MiB of the address space the addition wraps and the loop does not end; the loop is a
  partial function whose value \<open>None\<close> is that run.
\<close>

partial_function (option) map_image :: "paging_env \<Rightarrow> u32 \<Rightarrow> u32 \<Rightarrow> machine \<Rightarrow> machine option" where
  "map_image E c tablepos s =
     (if c \<le> image_end E then
        map_image E (c + push_bit 22 1)
          (if has_pse E then tablepos else tablepos + push_bit 12 1)
          (write32 (pdt_addr E + 4 * drop_bit 22 c)
             (PTE_P E OR PTE_W E OR (if has_pse E then c OR PTE_PS E else tablepos)) s)
      else Some s)"

text \<open>
  The inner loop of the second pass, \<open>for (d = 0; d <= 1024;) { t[d++] = m | PTE_P | PTE_W;
  m += 4096; }\<close>, where \<open>t\<close> is the table at \<open>tablepos\<close>: entry \<open>d\<close> is the word at
  \<open>tablepos + 4 * d\<close>.
\<close>

function fill_page_table :: "paging_env \<Rightarrow> u32 \<Rightarrow> u32 \<Rightarrow> u32 \<Rightarrow> machine \<Rightarrow> machine" where
  "fill_page_table E t m d s =
     (if d \<le> 1024 then
        fill_page_table E t (m + 4096) (d + 1) (write32 (t + 4 * d) (m OR PTE_P E OR PTE_W E) s)
      else s)"
  by pat_completeness auto
termination
proof (relation "measure (\<lambda>(E, t, m, d, s). 1025 - unat d)", goal_cases)
  case 1
  show ?case by simp
next
  case (2 E t m d s)
  then have "unat (d + 1) = unat d + 1" and "unat d \<le> 1024"
    by (simp_all add: word_le_nat_alt unat_word_ariths)
  then show ?case by simp
qed

declare fill_page_table.simps [simp del]

text \<open>
  The second pass over the image, run only without large pages: one table per 4 MiB,
  the tables 4096 bytes apart.
\<close>

partial_function (option) map_tables :: "paging_env \<Rightarrow> u32 \<Rightarrow> u32 \<Rightarrow> machine \<Rightarrow> machine option" where
  "map_tables E c tablepos s =
     (if c \<le> image_end E then
        map_tables E (c + push_bit 22 1) (tablepos + 4096) (fill_page_table E tablepos c 0 s)
      else Some s)"

text \<open>
  \<open>setup_paging\<close>. The result is \<open>None\<close> when a loop over the image does not end, otherwise
  the failed assertion or the machine with paging enabled.
\<close>

definition setup_paging :: "paging_env \<Rightarrow> machine \<Rightarrow> boot_result option" where
  "setup_paging E s =
    (let istart = image_start E;
         iend = image_end E;
         page_tables_start =
           (if (iend + push_bit 22 1) AND 0xFFF \<noteq> 0
            then (iend + push_bit 22 1 + 0xFFF) AND NOT 0xFFF
            else iend + push_bit 22 1)
     in
     case is_aligned (ucast istart) 22 of
       Inl (OrderAssertion msg) \<Rightarrow> Some (AssertionFailed msg s)
     | Inl UndefinedShift \<Rightarrow> Some (UndefinedBehaviour s)
     | Inr False \<Rightarrow> Some (AssertionFailed ''Image needs to start on large page boundary'' s)
     | Inr True \<Rightarrow>
        Option.bind (map_image E istart page_tables_start s) (\<lambda>s1.
        Option.bind (if \<not> has_pse E then map_tables E istart page_tables_start s1 else Some s1) (\<lambda>s2.
          let up = get_user_page E in
          if \<not> up + page_size E \<le> istart
          then Some (AssertionFailed ''User page cannot be mapped into kernel area'' s2)
          else
            let s3 = write32 (pdt_addr E + 4 * bit_select E 32 22 up)
                       (user_pt_addr E OR PTE_U E OR PTE_P E) s2;
                s4 = write32 (user_pt_addr E + 4 * bit_select E 22 12 up)
                       (user_page_backing_addr E OR PTE_U E OR PTE_P E) s3;
                s5 = (if has_pse E \<or> has_smep E
                      then s4\<lparr>cr4 := cr4 s4 OR (if has_pse E then CR4_PSE E else 0)
                                         OR (if has_smep E then CR4_SMEP E else 0)\<rparr>
                      else s4);
                s6 = s5\<lparr>cr3 := pdt_addr E\<rparr>;
                s7 = s6\<lparr>cr0 := cr0 s6 OR CR0_PG E OR (if has_wp E then CR0_WP E else 0)\<rparr>
            in Some (PagingEnabled s7))))"

text \<open>
  \<open>struct exception_frame\<close> is declared in arch.hpp, which is missing; the record has the
  fields arch.cpp names, and is extensible for the registers it does not name.
\<close>

record exception_frame =
  edi :: u32
  esi :: u32
  vector :: u32
  error_code :: u32
  ip :: u32
  cs :: u32
  eflags :: u32
  ss :: u32

text \<open>
  The arguments handed to \<open>format\<close> (util.hpp, missing) one after the other: a text, a
  number, or a number wrapped in \<open>hex()\<close>.
\<close>

datatype diag = Str string | Dec u32 | Hex u32

text \<open>
  How \<open>irq_entry\<close> leaves: \<open>Resumed esp target\<close> is the inline assembly \<open>mov esp; jmp *target\<close>,
  \<open>Halted\<close> is \<open>wait_forever()\<close>, and \<open>Returned\<close> would be a normal return to the caller.
\<close>

datatype control = Resumed u32 u32 | Halted | Returned

text \<open>
  The file-scope state of arch.cpp that \<open>irq_entry\<close> touches: \<open>ring0_continuation\<close> and
  \<open>ring3_exception_frame\<close> (pointers, null is 0), \<open>tss.esp0\<close>, the exception frames in
  memory by address, and the text emitted so far.
\<close>

record 'f kernel_state =
  ring0_continuation :: u32
  ring3_exception_frame :: u32
  tss_esp0 :: u32
  frame_at :: "u32 \<Rightarrow> 'f"
  console :: "diag list"

text \<open>
  \<open>print_exception\<close>; \<open>get_cr2()\<close> is the parameter \<open>cr2\<close>.
\<close>

definition print_exception :: "u32 \<Rightarrow> 'a exception_frame_scheme \<Rightarrow> diag list" where
  "print_exception cr2 ef =
     [Str ''!!! exception '', Dec (vector ef), Str '' ('', Hex (error_code ef), Str '') at '',
      Hex (cs ef), Str '':'', Hex (ip ef), Str ''\<newline>'',
      Str ''!!! CR2 '', Hex cr2, Str ''\<newline>'',
      Str ''!!! EDI '', Hex (edi ef), Str ''\<newline>'',
      Str ''!!! ESI '', Hex (esi ef), Str ''\<newline>'']"

definition irq_entry ::
  "u32 \<Rightarrow> 'a exception_frame_scheme \<Rightarrow> 'a exception_frame_scheme kernel_state
     \<Rightarrow> control \<times> 'a exception_frame_scheme kernel_state" where
  "irq_entry cr2 ef s =
     (if cs ef AND 3 \<noteq> 0 \<and> ring0_continuation s \<noteq> 0 then
        (let ret = ring0_continuation s;
             s1 = s\<lparr>ring0_continuation := 0\<rparr>;
             s2 = (if ring3_exception_frame s1 \<noteq> 0
                   then s1\<lparr>frame_at := (frame_at s1)(ring3_exception_frame s1 := ef),
                           ring3_exception_frame := 0\<rparr>
                   else s1)
         in (Resumed (tss_esp0 s2) ret, s2))
      else
        (Halted, s\<lparr>console := console s @ print_exception cr2 ef @ [Str ''!!! We're dead...\<newline>'']\<rparr>))"

text \<open>
  A concrete machine for the evaluations below: a CPU without large pages, a 1 MiB image
  at 4 MiB, the architectural values of the paging constants, and \<open>bit_select hi lo v\<close> read
  as the bits \<open>[lo, hi)\<close> of \<open>v\<close>; two exception frames and a kernel state with a
  continuation pending.
\<close>

definition example_env :: paging_env where
  "example_env =
     \<lparr>has_pse = False, has_wp = True, has_smep = False,
      image_start = 0x00400000, image_end = 0x004FFFFF,
      pdt_addr = 0x00410000, user_pt_addr = 0x00411000, user_page_backing_addr = 0x00412000,
      page_size = 4096,
      PTE_P = 1, PTE_W = 2, PTE_U = 4, PTE_PS = 0x80,
      CR0_PG = 0x80000000, CR0_WP = 0x10000, CR4_PSE = 0x10, CR4_SMEP = 0x100000,
      bit_select = (\<lambda>hi lo v. take_bit (hi - lo) (drop_bit lo v))\<rparr>"

definition example_machine :: machine where
  "example_machine = \<lparr>mem = (\<lambda>_. 0), cr0 = 0x11, cr3 = 0, cr4 = 0\<rparr>"

definition user_fault :: exception_frame where
  "user_fault = \<lparr>edi = 0x11, esi = 0x22, vector = 1, error_code = 0, ip = 0x101001, cs = 0x1B,
                 eflags = 0x102, ss = 0x23\<rparr>"

definition kernel_fault :: exception_frame where
  "kernel_fault = \<lparr>edi = 0x11, esi = 0x22, vector = 14, error_code = 2, ip = 0x400123, cs = 0x08,
                   eflags = 0x2, ss = 0\<rparr>"

definition pending_state :: "exception_frame kernel_state" where
  "pending_state =
     \<lparr>ring0_continuation = 0x400200, ring3_exception_frame = 0x7000, tss_esp0 = 0x7FF0,
      frame_at = (\<lambda>_. \<lparr>edi = 0, esi = 0, vector = 0, error_code = 0, ip = 0, cs = 0, eflags = 0, ss = 0\<rparr>),
      console = []\<rparr>"

section \<open>Properties of the search engine\<close>

lemma opcode_to_prefix_group_range:
  "- 1 \<le> opcode_to_prefix_group dp b \<and> opcode_to_prefix_group dp b < 5"
  by (simp add: opcode_to_prefix_group_def)

lemma length_create_prefix_group_lut: "length (create_prefix_group_lut dp) = 256"
  by (simp add: create_prefix_group_lut_def)

lemma create_prefix_group_lut_nth:
  "create_prefix_group_lut dp ! unat (b :: u8) = opcode_to_prefix_group dp b"
proof -
  have "unat b < 256"
    by (rule order_less_le_trans [OF unsigned_less]) simp
  then show ?thesis
    unfolding create_prefix_group_lut_def by (simp del: upt_Suc)
qed

lemma prefix_group_lut_nth:
  "prefix_group_lut G ! unat (b :: u8) = opcode_to_prefix_group (detect_prefixes G) b"
  by (simp add: prefix_group_lut_def create_prefix_group_lut_nth)

lemma prefix_group_lut_nth_nat:
  "i < 256 \<Longrightarrow> prefix_group_lut G ! i = opcode_to_prefix_group (detect_prefixes G) (of_nat i)"
  unfolding prefix_group_lut_def create_prefix_group_lut_def by (simp del: upt_Suc)

lemma group_at_eq:
  "group_at G instr i = opcode_to_prefix_group (detect_prefixes G) (raw instr i)"
  by (simp add: group_at_def prefix_group_lut_nth)

lemma scanned_state_0: "scanned_state G instr 0 = prefix_state_init"
  by (simp add: scanned_state_def positions_of_def last_position_def prefix_state_init_def
      upt_rec [of 0 5] upt_rec [of 1 5] upt_rec [of 2 5] upt_rec [of 3 5] upt_rec [of 4 5]
      numeral_eq_Suc)

lemma positions_of_Suc:
  "positions_of G instr (Suc n) g =
     positions_of G instr n g @ (if group_at G instr n = int g then [n] else [])"
  by (simp add: positions_of_def)

lemma scanned_state_step:
  assumes g: "0 \<le> group_at G instr n"
  shows "(scanned_state G instr n)
           \<lparr>count := (count (scanned_state G instr n))
                       [nat (group_at G instr n) := count (scanned_state G instr n) ! nat (group_at G instr n) + 1],
            position := (position (scanned_state G instr n))[nat (group_at G instr n) := of_nat n]\<rparr>
         = scanned_state G instr (Suc n)"
proof -
  have lt: "nat (group_at G instr n) < 5"
    using opcode_to_prefix_group_range [of "detect_prefixes G" "raw instr n"] g
    by (simp add: group_at_eq)
  have eq: "\<And>k. (group_at G instr n = int k) = (k = nat (group_at G instr n))"
    using g by auto
  have c: "(count (scanned_state G instr n))
             [nat (group_at G instr n) := count (scanned_state G instr n) ! nat (group_at G instr n) + 1]
           = count (scanned_state G instr (Suc n))"
    using lt by (intro nth_equalityI) (auto simp: scanned_state_def positions_of_Suc nth_list_update eq simp del: upt_Suc)
  have p: "(position (scanned_state G instr n))[nat (group_at G instr n) := of_nat n]
           = position (scanned_state G instr (Suc n))"
    using lt by (intro nth_equalityI) (auto simp: scanned_state_def positions_of_Suc nth_list_update eq last_position_def simp del: upt_Suc)
  show ?thesis using c p by (simp add: scanned_state_def)
qed

lemma scanned_length_eq:
  assumes "n \<le> 15" "\<And>k. k < n \<Longrightarrow> 0 \<le> group_at G instr k"
    and "n < 15 \<Longrightarrow> group_at G instr n < 0"
  shows "scanned_length G instr = n"
proof -
  have "takeWhile (\<lambda>i. 0 \<le> group_at G instr i) [0..<15] = take n [0..<15]"
    using assms by (intro takeWhile_eq_take_P_nth) (auto simp del: upt_Suc)
  then show ?thesis using assms(1) by (simp add: scanned_length_def del: upt_Suc)
qed

lemma analyze_loop_scanned:
  assumes "i \<le> 15" "\<And>k. k < i \<Longrightarrow> 0 \<le> group_at G instr k"
  shows "analyze_loop (prefix_group_lut G) instr i (scanned_state G instr i)
         = scanned_state G instr (scanned_length G instr)"
  using assms
proof (induction "15 - i" arbitrary: i)
  case 0
  then have "i = 15" by simp
  with 0 show ?case using scanned_length_eq [of 15 G instr]
    by (subst analyze_loop.simps) simp
next
  case (Suc d)
  then have i: "i < 15" by simp
  show ?case
  proof (cases "group_at G instr i < 0")
    case True
    then have "scanned_length G instr = i"
      using Suc.prems i by (intro scanned_length_eq) auto
    with True i show ?thesis
      by (subst analyze_loop.simps) (simp add: group_at_def [symmetric])
  next
    case False
    then have g: "0 \<le> group_at G instr i" by simp
    have "\<And>k. k < Suc i \<Longrightarrow> 0 \<le> group_at G instr k"
      using Suc.prems(2) g less_Suc_eq by auto
    then have "analyze_loop (prefix_group_lut G) instr (Suc i) (scanned_state G instr (Suc i))
           = scanned_state G instr (scanned_length G instr)"
      using Suc.hyps(2) i by (intro Suc.hyps(1)) auto
    then show ?thesis
      using i False scanned_state_step [OF g]
      by (subst analyze_loop.simps) (simp add: group_at_def [symmetric] Let_def)
  qed
qed

lemma analyze_prefixes_eq_spec: "analyze_prefixes G instr = analyze_prefixes_spec G instr"
  using analyze_loop_scanned [of 0 G instr]
  by (simp add: analyze_prefixes_def analyze_prefixes_spec_def scanned_state_0)

lemma scanned_length_le: "scanned_length G instr \<le> 15"
  using length_takeWhile_le [of "\<lambda>i. 0 \<le> group_at G instr i" "[0..<15]"]
  by (simp add: scanned_length_def del: upt_Suc)

lemma scanned_length_prefix:
  "k < scanned_length G instr \<Longrightarrow> 0 \<le> group_at G instr k"
proof -
  assume k: "k < scanned_length G instr"
  let ?P = "\<lambda>i. 0 \<le> group_at G instr i"
  have "takeWhile ?P [0..<15] ! k \<in> set (takeWhile ?P [0..<15])"
    using k by (simp add: scanned_length_def del: upt_Suc)
  then have "?P (takeWhile ?P [0..<15] ! k)"
    using set_takeWhileD by fast
  moreover have "takeWhile ?P [0..<15] ! k = [0..<15] ! k"
    using k by (simp add: scanned_length_def takeWhile_nth del: upt_Suc)
  moreover have "k < 15" using k scanned_length_le [of G instr] by simp
  ultimately show ?thesis by (simp del: upt_Suc)
qed

lemma scanned_length_stop:
  "scanned_length G instr < 15 \<Longrightarrow> group_at G instr (scanned_length G instr) < 0"
proof -
  assume lt: "scanned_length G instr < 15"
  let ?P = "\<lambda>i. 0 \<le> group_at G instr i"
  have "length (takeWhile ?P [0..<15]) < length [0..<15]"
    using lt by (simp add: scanned_length_def del: upt_Suc)
  then have "\<not> ?P ([0..<15] ! length (takeWhile ?P [0..<15]))"
    by (rule nth_length_takeWhile)
  then show ?thesis using lt by (simp add: scanned_length_def del: upt_Suc)
qed

lemma scanned_state_cong:
  assumes "\<And>k. k < n \<Longrightarrow> raw instr' k = raw instr k"
  shows "scanned_state G instr' n = scanned_state G instr n"
proof -
  have "\<And>g. positions_of G instr' n g = positions_of G instr n g"
    unfolding positions_of_def using assms
    by (intro filter_cong) (auto simp: group_at_def)
  then show ?thesis by (simp add: scanned_state_def)
qed

lemma memset_zero_apply:
  "memset_zero a p n i = (if p \<le> i \<and> i < p + n then 0 else a i)"
  by (induction n arbitrary: a p) auto

lemma upt_0_5: "[0..<5] = [0, 1, 2, 3, 4]"
  by (simp add: upt_rec [of 0 5] upt_rec [of 1 5] upt_rec [of 2 5] upt_rec [of 3 5]
      upt_rec [of 4 5] numeral_eq_Suc)

lemma less_5_cases: "g < (5::nat) \<Longrightarrow> g = 0 \<or> g = 1 \<or> g = 2 \<or> g = 3 \<or> g = 4"
  by arith

lemma length_positions_of_le: "length (positions_of G instr n g) \<le> n"
  using length_filter_le [of "\<lambda>i. group_at G instr i = int g" "[0..<n]"]
  by (simp add: positions_of_def)

lemma count_scanned_state:
  "g < 5 \<Longrightarrow> count (scanned_state G instr n) ! g = of_nat (length (positions_of G instr n g))"
  by (simp add: scanned_state_def del: upt_Suc)

lemma position_scanned_state:
  "g < 5 \<Longrightarrow> position (scanned_state G instr n) ! g = of_nat (last_position (positions_of G instr n g))"
  by (simp add: scanned_state_def del: upt_Suc)

lemma length_count_scanned_state: "length (count (scanned_state G instr n)) = 5"
  by (simp add: scanned_state_def del: upt_Suc)

lemma length_position_scanned_state: "length (position (scanned_state G instr n)) = 5"
  by (simp add: scanned_state_def del: upt_Suc)

lemma unat_count_scanned_state:
  assumes "g < 5" "n \<le> 15"
  shows "unat (count (scanned_state G instr n) ! g) = length (positions_of G instr n g)"
proof -
  have "length (positions_of G instr n g) < 256"
    using length_positions_of_le [of G instr n g] assms(2) by simp
  then show ?thesis
    using assms(1) by (simp add: count_scanned_state unat_of_nat)
qed

lemma last_position_props:
  assumes "positions_of G instr n g \<noteq> []"
  shows "last_position (positions_of G instr n g) < n \<and>
         group_at G instr (last_position (positions_of G instr n g)) = int g"
proof -
  have "last (positions_of G instr n g) \<in> set (positions_of G instr n g)"
    using assms by simp
  then show ?thesis using assms by (simp add: last_position_def positions_of_def)
qed

lemma sum_positions_of:
  assumes "\<And>k. k < n \<Longrightarrow> 0 \<le> group_at G instr k"
  shows "length (positions_of G instr n 0) + length (positions_of G instr n 1) +
         length (positions_of G instr n 2) + length (positions_of G instr n 3) +
         length (positions_of G instr n 4) = n"
  using assms
proof (induction n)
  case 0
  show ?case by (simp add: positions_of_def)
next
  case (Suc n)
  have g0: "0 \<le> group_at G instr n" using Suc.prems by simp
  have "group_at G instr n < 5"
    using opcode_to_prefix_group_range [of "detect_prefixes G" "raw instr n"]
    by (simp add: group_at_eq)
  with g0 have "group_at G instr n = 0 \<or> group_at G instr n = 1 \<or> group_at G instr n = 2 \<or>
                group_at G instr n = 3 \<or> group_at G instr n = 4" by arith
  moreover have "length (positions_of G instr n 0) + length (positions_of G instr n 1) +
         length (positions_of G instr n 2) + length (positions_of G instr n 3) +
         length (positions_of G instr n 4) = n"
    using Suc.prems by (intro Suc.IH) simp
  ultimately show ?case by (auto simp: positions_of_Suc)
qed

lemma find_next_candidate_unfold:
  "find_next_candidate G e =
    (if \<not> increment_at_m e < 15 then Inl OutOfBounds
     else if raw (current_m (increment_current e)) (unat (increment_at_m e)) = 0 then
       (if increment_at_m e = 0 then Inr (False, move_left (increment_current e))
        else find_next_candidate G (move_left (increment_current e)))
     else if rejected G (increment_current e) then find_next_candidate G (increment_current e)
     else Inr (True, increment_current e))"
  by (subst find_next_candidate.simps)
     (simp add: Let_def increment_current_def rejected_def move_left_def)

lemma find_next_candidate_induct [case_names step]:
  assumes "\<And>G e.
    \<lbrakk>\<lbrakk>increment_at_m e < 15; raw (current_m (increment_current e)) (unat (increment_at_m e)) = 0;
      increment_at_m e \<noteq> 0\<rbrakk> \<Longrightarrow> P G (move_left (increment_current e));
     \<lbrakk>increment_at_m e < 15; raw (current_m (increment_current e)) (unat (increment_at_m e)) \<noteq> 0;
      rejected G (increment_current e)\<rbrakk> \<Longrightarrow> P G (increment_current e)\<rbrakk>
    \<Longrightarrow> P G e"
  shows "P G e"
proof (induction G e rule: find_next_candidate.induct)
  case (1 G e)
  show ?case
  proof (rule assms)
    assume "increment_at_m e < 15"
      "raw (current_m (increment_current e)) (unat (increment_at_m e)) = 0"
      "increment_at_m e \<noteq> 0"
    then show "P G (move_left (increment_current e))"
      using "1.IH"(1) [OF _ refl refl]
      by (simp add: increment_current_def move_left_def)
  next
    assume "increment_at_m e < 15"
      "raw (current_m (increment_current e)) (unat (increment_at_m e)) \<noteq> 0"
      "rejected G (increment_current e)"
    then show "P G (increment_current e)"
      using "1.IH"(2) [OF _ refl refl _ refl]
      by (simp add: increment_current_def rejected_def Let_def)
  qed
qed

lemma increment_current_fields [simp]:
  "increment_at_m (increment_current e) = increment_at_m e"
  "max_prefixes_m (increment_current e) = max_prefixes_m e"
  "used_prefixes_m (increment_current e) = used_prefixes_m e"
  "group_lut_m (increment_current e) = group_lut_m e"
  by (simp_all add: increment_current_def)

lemma move_left_fields [simp]:
  "current_m (move_left e) = current_m e"
  "increment_at_m (move_left e) = increment_at_m e - 1"
  "max_prefixes_m (move_left e) = max_prefixes_m e"
  "used_prefixes_m (move_left e) = used_prefixes_m e"
  "group_lut_m (move_left e) = group_lut_m e"
  by (simp_all add: move_left_def)

lemma find_next_candidate_accepted:
  "find_next_candidate G e = Inr (True, e') \<Longrightarrow>
     \<not> rejected G e' \<and>
     max_prefixes_m e' = max_prefixes_m e \<and>
     used_prefixes_m e' = used_prefixes_m e \<and>
     group_lut_m e' = group_lut_m e"
proof (induction G e rule: find_next_candidate_induct)
  case (step G e)
  note u = find_next_candidate_unfold [of G e]
  show ?case
  proof (cases "increment_at_m e < 15")
    case False
    with step.prems u show ?thesis by simp
  next
    case lt: True
    show ?thesis
    proof (cases "raw (current_m (increment_current e)) (unat (increment_at_m e)) = 0")
      case wrapped: True
      show ?thesis
      proof (cases "increment_at_m e = 0")
        case True
        with step.prems u lt wrapped show ?thesis by simp
      next
        case False
        then have "find_next_candidate G (move_left (increment_current e)) = Inr (True, e')"
          using step.prems u lt wrapped by simp
        from step.IH(1) [OF lt wrapped False this] show ?thesis by simp
      qed
    next
      case nz: False
      show ?thesis
      proof (cases "rejected G (increment_current e)")
        case True
        then have "find_next_candidate G (increment_current e) = Inr (True, e')"
          using step.prems u lt nz by simp
        from step.IH(2) [OF lt nz True this] show ?thesis by simp
      next
        case False
        then have "e' = increment_current e"
          using step.prems u lt nz by simp
        then show ?thesis using False by simp
      qed
    qed
  qed
qed

lemma unat_foldl_counts:
  "unat a + sum_list (map unat ks) < 2 ^ 32 \<Longrightarrow>
   unat (foldl (\<lambda>sum c. sum + ucast c) (a :: size_t) (ks :: u8 list)) = unat a + sum_list (map unat ks)"
proof (induction ks arbitrary: a)
  case Nil
  show ?case by simp
next
  case (Cons c ks)
  have uc: "unat (ucast c :: size_t) = unat c"
  proof -
    have "unat c < 2 ^ 32"
      by (rule order_less_le_trans [OF unsigned_less]) simp
    then show ?thesis by (simp add: unsigned_ucast_eq take_bit_nat_eq_self)
  qed
  have "unat a + unat (ucast c :: size_t) < 2 ^ LENGTH(32)"
    using Cons.prems uc by simp
  then have step: "unat (a + ucast c) = unat a + unat c"
    using uc by (simp add: unat_add_lem [THEN iffD1])
  then have "unat (foldl (\<lambda>sum c. sum + ucast c) (a + ucast c) ks)
             = unat (a + ucast c) + sum_list (map unat ks)"
    using Cons.prems by (intro Cons.IH) simp
  then show ?case using step by simp
qed

lemma sum_counts_scanned_state:
  assumes "n \<le> 15" "\<And>k. k < n \<Longrightarrow> 0 \<le> group_at G instr k"
  shows "sum_list (map unat (count (scanned_state G instr n))) = n"
proof -
  have c: "count (scanned_state G instr n)
        = [count (scanned_state G instr n) ! 0, count (scanned_state G instr n) ! 1,
           count (scanned_state G instr n) ! 2, count (scanned_state G instr n) ! 3,
           count (scanned_state G instr n) ! 4]"
    by (simp add: scanned_state_def upt_0_5)
  have "sum_list (map unat (count (scanned_state G instr n)))
      = unat (count (scanned_state G instr n) ! 0) + unat (count (scanned_state G instr n) ! 1) +
        unat (count (scanned_state G instr n) ! 2) + unat (count (scanned_state G instr n) ! 3) +
        unat (count (scanned_state G instr n) ! 4)"
    by (subst c) simp
  also have "\<dots> = length (positions_of G instr n 0) + length (positions_of G instr n 1) +
         length (positions_of G instr n 2) + length (positions_of G instr n 3) +
         length (positions_of G instr n 4)"
    using assms(1) by (simp add: unat_count_scanned_state)
  also have "\<dots> = n" using assms(2) by (rule sum_positions_of)
  finally show ?thesis .
qed

lemma total_prefix_bytes_analyze:
  "unat (total_prefix_bytes (analyze_prefixes G instr)) = scanned_length G instr"
proof -
  have s: "sum_list (map unat (count (scanned_state G instr (scanned_length G instr))))
         = scanned_length G instr"
    using scanned_length_le scanned_length_prefix by (intro sum_counts_scanned_state) auto
  have "unat (0 :: size_t) + sum_list (map unat (count (scanned_state G instr (scanned_length G instr)))) < 2 ^ 32"
    using s scanned_length_le [of G instr] by simp
  from unat_foldl_counts [OF this] s show ?thesis
    by (simp add: total_prefix_bytes_def analyze_prefixes_eq_spec analyze_prefixes_spec_def)
qed

lemma not_duplicated_iff:
  "length (count st) = 5 \<Longrightarrow>
   (\<not> has_duplicated_prefixes st) = (\<forall>g<5. unat (count st ! g) \<le> 1)"
proof -
  assume l: "length (count st) = 5"
  have "\<And>c :: u8. (\<not> 2 \<le> c) = (unat c \<le> 1)"
    by (auto simp: word_le_nat_alt)
  then show ?thesis
    using l by (simp add: has_duplicated_prefixes_def list_ex_iff all_set_conv_all_nth)
qed

lemma not_unused_iff:
  "(\<not> has_unused_prefixes G st) = (\<forall>g<5. count st ! g \<noteq> 0 \<longrightarrow> bit (used_prefixes G) g)"
proof -
  have "has_unused_prefixes G st = (\<exists>g<5. count st ! g \<noteq> 0 \<and> \<not> bit (used_prefixes G) g)"
    unfolding has_unused_prefixes_def list_ex_iff bit_iff_and_push_bit_not_eq_0 set_upt
    by auto
  then show ?thesis by blast
qed

lemma ordered_iff:
  "has_ordered_prefixes st =
     (\<forall>i j. i < j \<and> j < 5 \<and> count st ! i \<noteq> 0 \<and> count st ! j \<noteq> 0
            \<longrightarrow> position st ! i \<le> position st ! j)"
proof -
  have "has_ordered_prefixes st =
     (\<forall>i\<in>{0..<5 - 1}. \<forall>j\<in>{i + 1..<5}.
        \<not> (count st ! i \<noteq> 0 \<and> count st ! j \<noteq> 0 \<and> position st ! i > position st ! j))"
    unfolding has_ordered_prefixes_def list_all_iff set_upt ..
  also have "\<dots> = (\<forall>i j. i < j \<and> j < 5 \<and> count st ! i \<noteq> 0 \<and> count st ! j \<noteq> 0
            \<longrightarrow> position st ! i \<le> position st ! j)"
  proof (intro iffI allI impI ballI)
    fix i j :: nat
    assume h: "\<forall>i\<in>{0..<5 - 1}. \<forall>j\<in>{i + 1..<5}.
        \<not> (count st ! i \<noteq> 0 \<and> count st ! j \<noteq> 0 \<and> position st ! i > position st ! j)"
      and ij: "i < j \<and> j < 5 \<and> count st ! i \<noteq> 0 \<and> count st ! j \<noteq> 0"
    from ij have "i \<in> {0..<5 - 1}" "j \<in> {i + 1..<5}" by auto
    with h have "\<not> (count st ! i \<noteq> 0 \<and> count st ! j \<noteq> 0 \<and> position st ! i > position st ! j)"
      by blast
    with ij show "position st ! i \<le> position st ! j" by (simp add: not_less)
  next
    fix i j :: nat
    assume h: "\<forall>i j. i < j \<and> j < 5 \<and> count st ! i \<noteq> 0 \<and> count st ! j \<noteq> 0
            \<longrightarrow> position st ! i \<le> position st ! j"
      and i: "i \<in> {0..<5 - 1}" and j: "j \<in> {i + 1..<5}"
    show "\<not> (count st ! i \<noteq> 0 \<and> count st ! j \<noteq> 0 \<and> position st ! i > position st ! j)"
    proof
      assume a: "count st ! i \<noteq> 0 \<and> count st ! j \<noteq> 0 \<and> position st ! i > position st ! j"
      from j have "i < j \<and> j < 5" by auto
      with h a have "position st ! i \<le> position st ! j" by blast
      with a show False by (simp add: not_less [symmetric])
    qed
  qed
  finally show ?thesis .
qed

lemma analyze_loop_stop:
  "i < 15 \<Longrightarrow> opcode_to_prefix_group (detect_prefixes G) (raw instr i) < 0 \<Longrightarrow>
   analyze_loop (prefix_group_lut G) instr i st = st"
  by (subst analyze_loop.simps) (simp add: prefix_group_lut_nth)

lemma analyze_loop_step:
  "i < 15 \<Longrightarrow> 0 \<le> opcode_to_prefix_group (detect_prefixes G) (raw instr i) \<Longrightarrow>
   analyze_loop (prefix_group_lut G) instr i st =
   analyze_loop (prefix_group_lut G) instr (Suc i)
     (st\<lparr>count := (count st)[nat (opcode_to_prefix_group (detect_prefixes G) (raw instr i)) :=
                     count st ! nat (opcode_to_prefix_group (detect_prefixes G) (raw instr i)) + 1],
         position := (position st)[nat (opcode_to_prefix_group (detect_prefixes G) (raw instr i)) := of_nat i]\<rparr>)"
  by (subst analyze_loop.simps) (simp add: Let_def prefix_group_lut_nth)

lemma prefix_state_init_eq:
  "prefix_state_init = \<lparr>count = [0, 0, 0, 0, 0], position = [0, 0, 0, 0, 0]\<rparr>"
  by (simp add: prefix_state_init_def numeral_eq_Suc)

lemma analyze_prefixes_example:
  "analyze_prefixes \<lparr>detect_prefixes = 0xFF, used_prefixes = 0xFF\<rparr> \<lparr>raw = (\<lambda>_. 0)(0 := 0x2E, 1 := 0x66)\<rparr>
   = \<lparr>count = [0, 1, 1, 0, 0], position = [0, 0, 1, 0, 0]\<rparr>"
  by (simp add: analyze_prefixes_def analyze_loop_stop analyze_loop_step
        opcode_to_prefix_group_def prefix_state_init_eq)

lemma rejected_example:
  "\<not> rejected \<lparr>detect_prefixes = 0xFF, used_prefixes = 0xFF\<rparr>
     \<lparr>current_m = \<lparr>raw = (\<lambda>_. 0)(0 := 0x2E, 1 := 0x66)\<rparr>, increment_at_m = 1, max_prefixes_m = 2,
      used_prefixes_m = 0xFF, group_lut_m = []\<rparr>"
  by (simp add: rejected_def analyze_prefixes_def analyze_loop_stop analyze_loop_step
        opcode_to_prefix_group_def prefix_state_init_eq
        total_prefix_bytes_def has_duplicated_prefixes_def
       has_unused_prefixes_def has_ordered_prefixes_def upt_conv_Cons word_le_nat_alt)

lemma find_next_candidate_example:
  "find_next_candidate \<lparr>detect_prefixes = 0xFF, used_prefixes = 0xFF\<rparr>
     \<lparr>current_m = \<lparr>raw = (\<lambda>_. 0)(0 := 0x2E, 1 := 0x65)\<rparr>, increment_at_m = 1, max_prefixes_m = 2,
      used_prefixes_m = 0xFF, group_lut_m = []\<rparr>
   = Inr (True, \<lparr>current_m = \<lparr>raw = (\<lambda>_. 0)(0 := 0x2E, 1 := 0x66)\<rparr>, increment_at_m = 1, max_prefixes_m = 2,
      used_prefixes_m = 0xFF, group_lut_m = []\<rparr>)"
  using rejected_example
  by (subst find_next_candidate_unfold) (simp add: increment_current_def)

section \<open>The claims about the search engine\<close>

text \<open>
  Claim C5. \<open>analyze_prefixes\<close> computes what the specification describes: it agrees with
  \<open>analyze_prefixes_spec\<close>, which counts, per group, the bytes among the first
  \<open>scanned_length\<close> bytes and records the last such position. \<open>scanned_length\<close> is at most
  15, every byte before it has a group in the 256-entry table, and the byte at it (when
  there is one) is not a prefix. A buffer that agrees with the candidate on the scanned
  bytes and also stops there has the same analysis: the bytes at or after the first
  non-prefix byte contribute nothing.
\<close>

theorem analyze_prefixes_scans_leading_prefixes:
  "analyze_prefixes G instr = analyze_prefixes_spec G instr \<and>
   scanned_length G instr \<le> 15 \<and>
   (\<forall>k. k < scanned_length G instr \<longrightarrow> 0 \<le> prefix_group_lut G ! unat (raw instr k)) \<and>
   (scanned_length G instr < 15 \<longrightarrow>
      prefix_group_lut G ! unat (raw instr (scanned_length G instr)) < 0) \<and>
   (\<forall>instr' :: instruction_bytes.
      (\<forall>k. k < scanned_length G instr \<longrightarrow> raw instr' k = raw instr k) \<and>
      (scanned_length G instr < 15 \<longrightarrow>
         prefix_group_lut G ! unat (raw instr' (scanned_length G instr)) < 0)
      \<longrightarrow> analyze_prefixes G instr' = analyze_prefixes G instr)"
proof (intro conjI allI impI)
  show "analyze_prefixes G instr = analyze_prefixes_spec G instr"
    by (rule analyze_prefixes_eq_spec)
  show "scanned_length G instr \<le> 15" by (rule scanned_length_le)
next
  fix k assume "k < scanned_length G instr"
  then show "0 \<le> prefix_group_lut G ! unat (raw instr k)"
    using scanned_length_prefix [of k G instr] by (simp add: group_at_def)
next
  assume "scanned_length G instr < 15"
  then show "prefix_group_lut G ! unat (raw instr (scanned_length G instr)) < 0"
    using scanned_length_stop [of G instr] by (simp add: group_at_def)
next
  fix instr' :: instruction_bytes
  assume a: "(\<forall>k. k < scanned_length G instr \<longrightarrow> raw instr' k = raw instr k) \<and>
             (scanned_length G instr < 15 \<longrightarrow>
                prefix_group_lut G ! unat (raw instr' (scanned_length G instr)) < 0)"
  have "scanned_length G instr' = scanned_length G instr"
  proof (rule scanned_length_eq)
    show "scanned_length G instr \<le> 15" by (rule scanned_length_le)
  next
    fix k assume k: "k < scanned_length G instr"
    then have "group_at G instr' k = group_at G instr k"
      using a by (simp add: group_at_def)
    then show "0 \<le> group_at G instr' k"
      using scanned_length_prefix [OF k] by simp
  next
    assume "scanned_length G instr < 15"
    then show "group_at G instr' (scanned_length G instr) < 0"
      using a by (simp add: group_at_def)
  qed
  moreover have "scanned_state G instr' (scanned_length G instr)
               = scanned_state G instr (scanned_length G instr)"
    using a by (intro scanned_state_cong) simp
  ultimately show "analyze_prefixes G instr' = analyze_prefixes G instr"
    by (simp add: analyze_prefixes_eq_spec analyze_prefixes_spec_def)
qed

lemma scanned_length_example:
  "scanned_length \<lparr>detect_prefixes = 0xFF, used_prefixes = 0xFF\<rparr>
     \<lparr>raw = (\<lambda>_. 0)(0 := 0x2E, 1 := 0x66)\<rparr> = 2"
  by (rule scanned_length_eq)
     (auto simp: group_at_eq opcode_to_prefix_group_def dest!: less_2_cases)

theorem analyze_prefixes_scans_leading_prefixes_witness:
  "analyze_prefixes_spec \<lparr>detect_prefixes = 0xFF, used_prefixes = 0xFF\<rparr>
     \<lparr>raw = (\<lambda>_. 0)(0 := 0x2E, 1 := 0x66)\<rparr>
   = \<lparr>count = [0, 1, 1, 0, 0], position = [0, 0, 1, 0, 0]\<rparr> \<and>
   analyze_prefixes \<lparr>detect_prefixes = 0xFF, used_prefixes = 0xFF\<rparr>
     \<lparr>raw = (\<lambda>_. 0)(0 := 0x2E, 1 := 0x66, 2 := 0x90, 3 := 0x67)\<rparr>
   = analyze_prefixes \<lparr>detect_prefixes = 0xFF, used_prefixes = 0xFF\<rparr>
     \<lparr>raw = (\<lambda>_. 0)(0 := 0x2E, 1 := 0x66)\<rparr>"
proof -
  let ?G = "\<lparr>detect_prefixes = 0xFF, used_prefixes = 0xFF\<rparr>"
  let ?I = "\<lparr>raw = (\<lambda>_. 0)(0 := 0x2E, 1 := 0x66)\<rparr>"
  let ?J = "\<lparr>raw = (\<lambda>_. 0)(0 := 0x2E, 1 := 0x66, 2 := 0x90, 3 := 0x67)\<rparr>"
  note t = analyze_prefixes_scans_leading_prefixes [of ?G ?I]
  have a: "analyze_prefixes_spec ?G ?I = \<lparr>count = [0, 1, 1, 0, 0], position = [0, 0, 1, 0, 0]\<rparr>"
    using t analyze_prefixes_example by simp
  have "(\<forall>k. k < scanned_length ?G ?I \<longrightarrow> raw ?J k = raw ?I k) \<and>
        (scanned_length ?G ?I < 15 \<longrightarrow> prefix_group_lut ?G ! unat (raw ?J (scanned_length ?G ?I)) < 0)"
    unfolding scanned_length_example
    by (auto simp: prefix_group_lut_nth_nat opcode_to_prefix_group_def dest!: less_2_cases)
  with t have "analyze_prefixes ?G ?J = analyze_prefixes ?G ?I" by blast
  with a show ?thesis by simp
qed

text \<open>
  Claim C6. \<open>clear_after pos\<close> leaves the bytes below \<open>pos\<close> as they are, makes every byte
  from \<open>pos\<close> to index 14 zero, writes nothing at an index of 15 or more, and leaves the
  cursor, the configuration and the table member of the engine unchanged.
\<close>

theorem clear_after_frame:
  "(\<forall>i. i < unat pos \<longrightarrow> raw (current_m (clear_after pos e)) i = raw (current_m e) i) \<and>
   (\<forall>i. unat pos \<le> i \<and> i < 15 \<longrightarrow> raw (current_m (clear_after pos e)) i = 0) \<and>
   (\<forall>i. 15 \<le> i \<longrightarrow> raw (current_m (clear_after pos e)) i = raw (current_m e) i) \<and>
   increment_at_m (clear_after pos e) = increment_at_m e \<and>
   max_prefixes_m (clear_after pos e) = max_prefixes_m e \<and>
   used_prefixes_m (clear_after pos e) = used_prefixes_m e \<and>
   group_lut_m (clear_after pos e) = group_lut_m e"
proof (cases "pos < 15")
  case True
  then have p: "unat pos < 15" by (simp add: word_less_nat_alt)
  have "unat (15 - pos) = 15 - unat pos"
    using True by (simp add: unat_sub word_le_nat_alt word_less_nat_alt)
  then show ?thesis using True p
    by (simp add: clear_after_def memset_zero_apply)
next
  case False
  then have "15 \<le> unat pos" by (simp add: word_less_nat_alt)
  then show ?thesis using False by (auto simp add: clear_after_def)
qed

theorem clear_after_frame_witness:
  "raw (current_m (clear_after 3 \<lparr>current_m = \<lparr>raw = (\<lambda>_. 0xAA)\<rparr>, increment_at_m = 7,
      max_prefixes_m = 2, used_prefixes_m = 0xFF, group_lut_m = []\<rparr>)) 2 = 0xAA \<and>
   raw (current_m (clear_after 3 \<lparr>current_m = \<lparr>raw = (\<lambda>_. 0xAA)\<rparr>, increment_at_m = 7,
      max_prefixes_m = 2, used_prefixes_m = 0xFF, group_lut_m = []\<rparr>)) 3 = 0 \<and>
   raw (current_m (clear_after 3 \<lparr>current_m = \<lparr>raw = (\<lambda>_. 0xAA)\<rparr>, increment_at_m = 7,
      max_prefixes_m = 2, used_prefixes_m = 0xFF, group_lut_m = []\<rparr>)) 14 = 0 \<and>
   increment_at_m (clear_after 3 \<lparr>current_m = \<lparr>raw = (\<lambda>_. 0xAA)\<rparr>, increment_at_m = 7,
      max_prefixes_m = 2, used_prefixes_m = 0xFF, group_lut_m = []\<rparr>) = 7"
  using clear_after_frame [of 3 "\<lparr>current_m = \<lparr>raw = (\<lambda>_. 0xAA)\<rparr>, increment_at_m = 7,
      max_prefixes_m = 2, used_prefixes_m = 0xFF, group_lut_m = []\<rparr>"]
  by simp

lemma analyze_prefixes_count_length: "length (count (analyze_prefixes G instr)) = 5"
  by (simp add: analyze_prefixes_eq_spec analyze_prefixes_spec_def length_count_scanned_state)

lemma present_group_position:
  assumes g: "g < 5" and c: "count (analyze_prefixes G instr) ! g \<noteq> 0"
  shows "unat (position (analyze_prefixes G instr) ! g) < scanned_length G instr \<and>
         prefix_group_lut G ! unat (raw instr (unat (position (analyze_prefixes G instr) ! g))) = int g"
proof -
  let ?n = "scanned_length G instr"
  let ?ps = "positions_of G instr ?n g"
  have "?ps \<noteq> []"
    using c g by (auto simp: analyze_prefixes_eq_spec analyze_prefixes_spec_def count_scanned_state)
  then have lp: "last_position ?ps < ?n \<and> group_at G instr (last_position ?ps) = int g"
    by (rule last_position_props)
  then have "last_position ?ps < 256"
    using scanned_length_le [of G instr] by simp
  then have "unat (position (analyze_prefixes G instr) ! g) = last_position ?ps"
    using g by (simp add: analyze_prefixes_eq_spec analyze_prefixes_spec_def
        position_scanned_state unat_of_nat)
  with lp show ?thesis by (simp add: group_at_def)
qed

text \<open>
  What the rejection test gives for an accepted candidate: five counts whose sum (the
  number of classified prefix bytes, the length of the scanned run) is at most the engine's
  \<open>max_prefixes_m\<close>, no count above one, and every group with a non-zero count has its bit
  set in the file-scope \<open>used_prefixes\<close> that \<open>has_unused_prefixes\<close> reads. The engine's own
  permitted set \<open>used_prefixes_m\<close> does not occur: the code never reads it.
\<close>

lemma find_next_candidate_prefix_limits:
  assumes "find_next_candidate G e = Inr (True, e')"
  shows "length (count (analyze_prefixes G (get_candidate e'))) = 5 \<and>
         sum_list (map unat (count (analyze_prefixes G (get_candidate e')))) \<le> unat (max_prefixes_m e') \<and>
         sum_list (map unat (count (analyze_prefixes G (get_candidate e')))) = scanned_length G (get_candidate e') \<and>
         (\<forall>g<5. unat (count (analyze_prefixes G (get_candidate e')) ! g) \<le> 1) \<and>
         (\<forall>g<5. count (analyze_prefixes G (get_candidate e')) ! g \<noteq> 0 \<longrightarrow> bit (used_prefixes G) g) \<and>
         max_prefixes_m e' = max_prefixes_m e"
proof -
  let ?st = "analyze_prefixes G (current_m e')"
  note a = find_next_candidate_accepted [OF assms]
  have r: "\<not> rejected G e'" using a by blast
  have m: "max_prefixes_m e' = max_prefixes_m e" using a by blast
  have acc: "\<not> total_prefix_bytes ?st > max_prefixes_m e'" "\<not> has_duplicated_prefixes ?st"
     "\<not> has_unused_prefixes G ?st"
    using r by (simp_all add: rejected_def Let_def)
  have len: "length (count ?st) = 5" by (rule analyze_prefixes_count_length)
  have tot: "unat (total_prefix_bytes ?st) = scanned_length G (current_m e')"
    by (rule total_prefix_bytes_analyze)
  have sum: "sum_list (map unat (count ?st)) = scanned_length G (current_m e')"
    using scanned_length_le scanned_length_prefix
    by (simp add: analyze_prefixes_eq_spec analyze_prefixes_spec_def sum_counts_scanned_state)
  have le: "scanned_length G (current_m e') \<le> unat (max_prefixes_m e')"
    using acc(1) tot by (simp add: word_less_nat_alt)
  show ?thesis
    using len sum le m acc(2,3)
    by (simp add: get_candidate_def not_duplicated_iff not_unused_iff)
qed

text \<open>
  Claim C2. When \<open>find_next_candidate\<close> returns true, for every pair of groups \<open>i < j\<close>
  (numbered 0 lock/repeat, 1 segment, 2 operand size, 3 address size, 4 REX) that both
  occur in the analysis of the candidate, the position recorded for \<open>i\<close> is strictly before
  the position recorded for \<open>j\<close>, and each recorded position holds a byte of its group.
\<close>

theorem find_next_candidate_ordered:
  assumes "find_next_candidate G e = Inr (True, e')"
  shows "\<forall>i j. i < j \<and> j < 5 \<and>
           count (analyze_prefixes G (get_candidate e')) ! i \<noteq> 0 \<and>
           count (analyze_prefixes G (get_candidate e')) ! j \<noteq> 0
         \<longrightarrow> unat (position (analyze_prefixes G (get_candidate e')) ! i)
               < unat (position (analyze_prefixes G (get_candidate e')) ! j) \<and>
             prefix_group_lut G ! unat (raw (get_candidate e')
               (unat (position (analyze_prefixes G (get_candidate e')) ! i))) = int i \<and>
             prefix_group_lut G ! unat (raw (get_candidate e')
               (unat (position (analyze_prefixes G (get_candidate e')) ! j))) = int j"
proof (intro allI impI)
  fix i j :: nat
  let ?st = "analyze_prefixes G (current_m e')"
  assume h: "i < j \<and> j < 5 \<and>
           count (analyze_prefixes G (get_candidate e')) ! i \<noteq> 0 \<and>
           count (analyze_prefixes G (get_candidate e')) ! j \<noteq> 0"
  then have ij: "i < j" "j < 5" "i < 5" and ci: "count ?st ! i \<noteq> 0" and cj: "count ?st ! j \<noteq> 0"
    by (simp_all add: get_candidate_def)
  have "\<not> rejected G e'" using find_next_candidate_accepted [OF assms] by blast
  then have "has_ordered_prefixes ?st"
    by (simp add: rejected_def Let_def)
  then have le: "position ?st ! i \<le> position ?st ! j"
    using ij ci cj by (simp add: ordered_iff)
  note pi = present_group_position [OF ij(3) ci] and pj = present_group_position [OF ij(2) cj]
  have "unat (position ?st ! i) \<noteq> unat (position ?st ! j)"
  proof
    assume eq: "unat (position ?st ! i) = unat (position ?st ! j)"
    have "int i = prefix_group_lut G ! unat (raw (current_m e') (unat (position ?st ! i)))"
      using pi by simp
    also have "\<dots> = prefix_group_lut G ! unat (raw (current_m e') (unat (position ?st ! j)))"
      by (simp only: eq)
    also have "\<dots> = int j" using pj by simp
    finally show False using ij(1) by simp
  qed
  with le have "unat (position ?st ! i) < unat (position ?st ! j)"
    by (simp add: word_le_nat_alt)
  with pi pj show "unat (position (analyze_prefixes G (get_candidate e')) ! i)
               < unat (position (analyze_prefixes G (get_candidate e')) ! j) \<and>
             prefix_group_lut G ! unat (raw (get_candidate e')
               (unat (position (analyze_prefixes G (get_candidate e')) ! i))) = int i \<and>
             prefix_group_lut G ! unat (raw (get_candidate e')
               (unat (position (analyze_prefixes G (get_candidate e')) ! j))) = int j"
    by (simp add: get_candidate_def)
qed


theorem find_next_candidate_ordered_witness:
  "unat (position (analyze_prefixes \<lparr>detect_prefixes = 0xFF, used_prefixes = 0xFF\<rparr>
     (get_candidate \<lparr>current_m = \<lparr>raw = (\<lambda>_. 0)(0 := 0x2E, 1 := 0x66)\<rparr>, increment_at_m = 1,
        max_prefixes_m = 2, used_prefixes_m = 0xFF, group_lut_m = []\<rparr>)) ! 1)
   < unat (position (analyze_prefixes \<lparr>detect_prefixes = 0xFF, used_prefixes = 0xFF\<rparr>
     (get_candidate \<lparr>current_m = \<lparr>raw = (\<lambda>_. 0)(0 := 0x2E, 1 := 0x66)\<rparr>, increment_at_m = 1,
        max_prefixes_m = 2, used_prefixes_m = 0xFF, group_lut_m = []\<rparr>)) ! 2)"
proof -
  let ?G = "\<lparr>detect_prefixes = 0xFF, used_prefixes = 0xFF\<rparr>"
  let ?E = "\<lparr>current_m = \<lparr>raw = (\<lambda>_. 0)(0 := 0x2E, 1 := 0x66)\<rparr>, increment_at_m = 1,
        max_prefixes_m = 2, used_prefixes_m = 0xFF, group_lut_m = []\<rparr>"
  have c: "(1::nat) < 2 \<and> (2::nat) < 5 \<and> count (analyze_prefixes ?G (get_candidate ?E)) ! 1 \<noteq> 0 \<and>
        count (analyze_prefixes ?G (get_candidate ?E)) ! 2 \<noteq> 0"
    unfolding get_candidate_def search_engine.select_convs analyze_prefixes_example by simp
  from find_next_candidate_ordered [OF find_next_candidate_example, THEN spec, THEN spec, THEN mp, OF c]
  show ?thesis by blast
qed

lemma raw_increment_current:
  "raw (current_m (increment_current e)) (unat (increment_at_m e))
     = raw (current_m e) (unat (increment_at_m e)) + 1"
  by (simp add: increment_current_def)

lemma unat_byte_succ:
  "(b :: u8) + 1 \<noteq> 0 \<Longrightarrow> unat (b + 1) = Suc (unat b)"
  using unatSuc [of b] by (simp add: add.commute)

lemma find_next_candidate_at_zero:
  "increment_at_m e = 0 \<Longrightarrow>
   (\<exists>e'. find_next_candidate G e = Inr (False, e') \<and> raw (current_m e') 0 = 0 \<and>
         increment_at_m e' = - 1) \<or>
   (\<exists>e'. find_next_candidate G e = Inr (True, e') \<and> increment_at_m e' = 0 \<and>
         unat (raw (current_m e) 0) < unat (raw (current_m e') 0))"
proof (induction G e rule: find_next_candidate_induct)
  case (step G e)
  note u = find_next_candidate_unfold [of G e]
  have z: "increment_at_m e = 0" by (rule step.prems)
  have lt: "increment_at_m e < 15" using z by simp
  show ?case
  proof (cases "raw (current_m (increment_current e)) (unat (increment_at_m e)) = 0")
    case True
    then have "find_next_candidate G e = Inr (False, move_left (increment_current e))"
      using u z by simp
    moreover have "raw (current_m (move_left (increment_current e))) 0 = 0"
      using True z by simp
    moreover have "increment_at_m (move_left (increment_current e)) = - 1"
      using z by simp
    ultimately show ?thesis by blast
  next
    case nz: False
    have r0: "raw (current_m (increment_current e)) 0 = raw (current_m e) 0 + 1"
      using raw_increment_current [of e] z by simp
    then have "raw (current_m e) 0 + 1 \<noteq> 0" using nz z by simp
    then have grow: "unat (raw (current_m (increment_current e)) 0) = Suc (unat (raw (current_m e) 0))"
      using r0 by (simp add: unat_byte_succ)
    show ?thesis
    proof (cases "rejected G (increment_current e)")
      case True
      then have eq: "find_next_candidate G e = find_next_candidate G (increment_current e)"
        using u lt nz by simp
      have "increment_at_m (increment_current e) = 0" using z by simp
      from step.IH(2) [OF lt nz True this] show ?thesis
        unfolding eq using grow by auto
    next
      case False
      then have "find_next_candidate G e = Inr (True, increment_current e)"
        using u lt nz by simp
      then show ?thesis using grow z by simp
    qed
  qed
qed

lemma run_calls_exhausts:
  "increment_at_m e = 0 \<Longrightarrow>
   \<exists>n e'. n \<le> 255 - unat (raw (current_m e) 0) \<and> run_calls G n e = Inr (False, e') \<and>
          raw (current_m e') 0 = 0 \<and> increment_at_m e' = - 1"
proof (induction "255 - unat (raw (current_m e) 0)" arbitrary: e rule: less_induct)
  case less
  from find_next_candidate_at_zero [OF less.prems, of G] show ?case
  proof (elim disjE exE conjE)
    fix e'
    assume "find_next_candidate G e = Inr (False, e')" "raw (current_m e') 0 = 0"
      "increment_at_m e' = - 1"
    then have "run_calls G 0 e = Inr (False, e') \<and> raw (current_m e') 0 = 0 \<and> increment_at_m e' = - 1"
      by simp
    then show ?thesis by blast
  next
    fix e'
    assume t: "find_next_candidate G e = Inr (True, e')" and z: "increment_at_m e' = 0"
      and g: "unat (raw (current_m e) 0) < unat (raw (current_m e') 0)"
    have b: "unat (raw (current_m e') 0) < 256"
      by (rule order_less_le_trans [OF unsigned_less]) simp
    then have "255 - unat (raw (current_m e') 0) < 255 - unat (raw (current_m e) 0)"
      using g by simp
    from less.hyps [OF this z] obtain n e'' where
      n: "n \<le> 255 - unat (raw (current_m e') 0)" and
      r: "run_calls G n e' = Inr (False, e'')" "raw (current_m e'') 0 = 0" "increment_at_m e'' = - 1"
      by blast
    have "Suc n \<le> 255 - unat (raw (current_m e) 0)" using n g b by simp
    moreover have "run_calls G (Suc n) e = Inr (False, e'')" using t r(1) by simp
    ultimately show ?thesis using r(2,3) by blast
  qed
qed

text \<open>
  Claim C3. From the all-zero buffer with the default configuration, after \<open>start_over 1\<close>,
  at most 256 calls of \<open>find_next_candidate\<close> are made before one returns false: every
  earlier call returned true (none stopped with a fault), and the call that returns false
  leaves byte 0 wrapped to zero and the cursor at \<open>0 - 1\<close>. This holds whatever the
  file-scope \<open>detect_prefixes\<close> and \<open>used_prefixes\<close> are.
\<close>

theorem enumeration_terminates:
  "\<exists>n e'. n \<le> 255 \<and>
      run_calls G n (start_over 1 (mk_search_engine 0 0xFF 0xFF (mk_instruction_bytes []))) = Inr (False, e') \<and>
      raw (get_candidate e') 0 = 0 \<and> increment_at_m e' = - 1"
proof -
  let ?e = "start_over 1 (mk_search_engine 0 0xFF 0xFF (mk_instruction_bytes []))"
  have "increment_at_m ?e = 0" by (simp add: start_over_def)
  from run_calls_exhausts [OF this, of G] obtain n e' where
    n: "n \<le> 255 - unat (raw (current_m ?e) 0)" and
    r: "run_calls G n ?e = Inr (False, e')" "raw (current_m e') 0 = 0" "increment_at_m e' = - 1"
    by blast
  from n have "n \<le> 255" by simp
  with r show ?thesis unfolding get_candidate_def by blast
qed

theorem enumeration_terminates_witness:
  "\<exists>n e'. n \<le> 255 \<and>
      run_calls \<lparr>detect_prefixes = 0xFF, used_prefixes = 0xFF\<rparr> n
        (start_over 1 (mk_search_engine 0 0xFF 0xFF (mk_instruction_bytes []))) = Inr (False, e') \<and>
      raw (get_candidate e') 0 = 0 \<and> increment_at_m e' = - 1"
  by (rule enumeration_terminates)

lemmas eval_simps =
  rejected_def analyze_prefixes_def analyze_loop_stop analyze_loop_step opcode_to_prefix_group_def
  prefix_state_init_eq total_prefix_bytes_def has_duplicated_prefixes_def has_unused_prefixes_def
  has_ordered_prefixes_def upt_conv_Cons word_le_nat_alt increment_current_def move_left_def

lemma create_prefix_group_lut_nth_nat:
  "i < 256 \<Longrightarrow> create_prefix_group_lut dp ! i = opcode_to_prefix_group dp (of_nat i)"
  unfolding create_prefix_group_lut_def by (simp del: upt_Suc)

text \<open>
  Claim C9 fails on the code. On every engine, after \<open>start_over(0)\<close> the cursor is \<open>0 - 1 = 0xFFFFFFFF\<close>, after
  \<open>start_over(16)\<close> it is 15, and after a call that reported exhaustion it is \<open>0xFFFFFFFF\<close>
  again (the post-decrement is carried out before the return): in each case the next
  \<open>find_next_candidate\<close> indexes \<open>raw\<close> outside \<open>0..14\<close>.
\<close>

theorem find_next_candidate_out_of_bounds:
  "find_next_candidate G (start_over 0 e) = Inl OutOfBounds \<and>
   find_next_candidate G (start_over 16 e) = Inl OutOfBounds \<and>
   find_next_candidate \<lparr>detect_prefixes = 0xFF, used_prefixes = 0xFF\<rparr>
     \<lparr>current_m = \<lparr>raw = (\<lambda>_. 0)(0 := 0xFF)\<rparr>, increment_at_m = 0, max_prefixes_m = 0,
      used_prefixes_m = 0xFF, group_lut_m = []\<rparr>
     = Inr (False, \<lparr>current_m = \<lparr>raw = (\<lambda>_. 0)\<rparr>, increment_at_m = 0xFFFFFFFF, max_prefixes_m = 0,
      used_prefixes_m = 0xFF, group_lut_m = []\<rparr>) \<and>
   find_next_candidate \<lparr>detect_prefixes = 0xFF, used_prefixes = 0xFF\<rparr>
     \<lparr>current_m = \<lparr>raw = (\<lambda>_. 0)\<rparr>, increment_at_m = 0xFFFFFFFF, max_prefixes_m = 0,
      used_prefixes_m = 0xFF, group_lut_m = []\<rparr> = Inl OutOfBounds"
proof (intro conjI)
  show "find_next_candidate G (start_over 0 e) = Inl OutOfBounds"
    by (subst find_next_candidate_unfold) (simp add: start_over_def)
  show "find_next_candidate G (start_over 16 e) = Inl OutOfBounds"
    by (subst find_next_candidate_unfold) (simp add: start_over_def)
  show "find_next_candidate \<lparr>detect_prefixes = 0xFF, used_prefixes = 0xFF\<rparr>
     \<lparr>current_m = \<lparr>raw = (\<lambda>_. 0)(0 := 0xFF)\<rparr>, increment_at_m = 0, max_prefixes_m = 0,
      used_prefixes_m = 0xFF, group_lut_m = []\<rparr>
     = Inr (False, \<lparr>current_m = \<lparr>raw = (\<lambda>_. 0)\<rparr>, increment_at_m = 0xFFFFFFFF, max_prefixes_m = 0,
      used_prefixes_m = 0xFF, group_lut_m = []\<rparr>)"
    by (subst find_next_candidate_unfold) (simp add: increment_current_def move_left_def fun_eq_iff)
  show "find_next_candidate \<lparr>detect_prefixes = 0xFF, used_prefixes = 0xFF\<rparr>
     \<lparr>current_m = \<lparr>raw = (\<lambda>_. 0)\<rparr>, increment_at_m = 0xFFFFFFFF, max_prefixes_m = 0,
      used_prefixes_m = 0xFF, group_lut_m = []\<rparr> = Inl OutOfBounds"
    by (subst find_next_candidate_unfold) simp
qed

lemma find_next_candidate_skips_66:
  "find_next_candidate \<lparr>detect_prefixes = 0xFF, used_prefixes = 0xFF\<rparr>
     \<lparr>current_m = \<lparr>raw = (\<lambda>_. 0)(0 := 0x65)\<rparr>, increment_at_m = 0, max_prefixes_m = 0,
      used_prefixes_m = 0xFF, group_lut_m = t\<rparr>
   = Inr (True, \<lparr>current_m = \<lparr>raw = (\<lambda>_. 0)(0 := 0x68)\<rparr>, increment_at_m = 0, max_prefixes_m = 0,
      used_prefixes_m = 0xFF, group_lut_m = t\<rparr>)"
  apply (subst find_next_candidate_unfold, simp add: eval_simps)
  apply (subst find_next_candidate_unfold, simp add: eval_simps)
  apply (subst find_next_candidate_unfold, simp add: eval_simps)
  done

lemma find_next_candidate_takes_66:
  "find_next_candidate \<lparr>detect_prefixes = 0, used_prefixes = 0xFF\<rparr>
     \<lparr>current_m = \<lparr>raw = (\<lambda>_. 0)(0 := 0x65)\<rparr>, increment_at_m = 0, max_prefixes_m = 0,
      used_prefixes_m = 0xFF, group_lut_m = t\<rparr>
   = Inr (True, \<lparr>current_m = \<lparr>raw = (\<lambda>_. 0)(0 := 0x66)\<rparr>, increment_at_m = 0, max_prefixes_m = 0,
      used_prefixes_m = 0xFF, group_lut_m = t\<rparr>)"
  by (subst find_next_candidate_unfold) (simp add: eval_simps)

lemma increment_current_members:
  "increment_current (e\<lparr>used_prefixes_m := u, group_lut_m := t\<rparr>)
     = (increment_current e)\<lparr>used_prefixes_m := u, group_lut_m := t\<rparr>"
  by (simp add: increment_current_def)

lemma move_left_members:
  "move_left (e\<lparr>used_prefixes_m := u, group_lut_m := t\<rparr>)
     = (move_left e)\<lparr>used_prefixes_m := u, group_lut_m := t\<rparr>"
  by (simp add: move_left_def)

lemma rejected_members:
  "rejected G (e\<lparr>used_prefixes_m := u, group_lut_m := t\<rparr>) = rejected G e"
  by (simp add: rejected_def)

lemma find_next_candidate_ignores_members:
  "find_next_candidate G (e\<lparr>used_prefixes_m := u, group_lut_m := t\<rparr>)
     = map_sum id (map_prod id (\<lambda>e'. e'\<lparr>used_prefixes_m := u, group_lut_m := t\<rparr>))
         (find_next_candidate G e)"
proof (induction G e rule: find_next_candidate_induct)
  case (step G e)
  let ?f = "\<lambda>e'. e'\<lparr>used_prefixes_m := u, group_lut_m := t\<rparr>"
  have r: "raw (current_m (increment_current (?f e))) (unat (increment_at_m e))
           = raw (current_m (increment_current e)) (unat (increment_at_m e))"
    by (simp add: increment_current_def)
  show ?case
  proof (cases "increment_at_m e < 15")
    case False
    then show ?thesis
      by (subst (1 2) find_next_candidate_unfold) simp
  next
    case lt: True
    show ?thesis
    proof (cases "raw (current_m (increment_current e)) (unat (increment_at_m e)) = 0")
      case wrapped: True
      show ?thesis
      proof (cases "increment_at_m e = 0")
        case True
        then show ?thesis
          using lt wrapped r
          by (subst (1 2) find_next_candidate_unfold)
             (simp add: increment_current_members move_left_members id_def)
      next
        case False
        from step.IH(1) [OF lt wrapped False] show ?thesis
          using lt wrapped r False
          by (subst (1 2) find_next_candidate_unfold)
             (simp add: increment_current_members move_left_members id_def)
      qed
    next
      case nz: False
      show ?thesis
      proof (cases "rejected G (increment_current e)")
        case True
        from step.IH(2) [OF lt nz True] show ?thesis
          using lt nz r True
          by (subst (1 2) find_next_candidate_unfold)
             (simp add: increment_current_members rejected_members id_def)
      next
        case False
        then show ?thesis
          using lt nz r
          by (subst (1 2) find_next_candidate_unfold)
             (simp add: increment_current_members rejected_members id_def)
      qed
    qed
  qed
qed

text \<open>
  Claim C7 fails on the code. The result of \<open>find_next_candidate\<close> is the same whatever
  the engine's own table \<open>group_lut_m\<close> (and its member \<open>used_prefixes_m\<close>) holds. Two engines
  are built with the detected-prefix masks 0 and 0xFF; their own tables differ at the
  byte 0x66. Both classify with the file-scope table
  all the same: with the file-scope mask 0xFF both skip 0x66 and 0x67 and yield 0x68, with
  the file-scope mask 0 both yield 0x66.
\<close>

theorem classification_ignores_engine_table:
  "find_next_candidate G (e\<lparr>used_prefixes_m := u, group_lut_m := t\<rparr>)
     = map_sum id (map_prod id (\<lambda>e'. e'\<lparr>used_prefixes_m := u, group_lut_m := t\<rparr>))
         (find_next_candidate G e) \<and>
   group_lut_m (mk_search_engine 0 0xFF 0 \<lparr>raw = (\<lambda>_. 0)(0 := 0x65)\<rparr>) ! 0x66 = - 1 \<and>
   group_lut_m (mk_search_engine 0 0xFF 0xFF \<lparr>raw = (\<lambda>_. 0)(0 := 0x65)\<rparr>) ! 0x66 = 2 \<and>
   map_sum id (map_prod id get_candidate)
     (find_next_candidate \<lparr>detect_prefixes = 0xFF, used_prefixes = 0xFF\<rparr>
        (start_over 1 (mk_search_engine 0 0xFF 0 \<lparr>raw = (\<lambda>_. 0)(0 := 0x65)\<rparr>)))
     = Inr (True, \<lparr>raw = (\<lambda>_. 0)(0 := 0x68)\<rparr>) \<and>
   map_sum id (map_prod id get_candidate)
     (find_next_candidate \<lparr>detect_prefixes = 0xFF, used_prefixes = 0xFF\<rparr>
        (start_over 1 (mk_search_engine 0 0xFF 0xFF \<lparr>raw = (\<lambda>_. 0)(0 := 0x65)\<rparr>)))
     = Inr (True, \<lparr>raw = (\<lambda>_. 0)(0 := 0x68)\<rparr>) \<and>
   map_sum id (map_prod id get_candidate)
     (find_next_candidate \<lparr>detect_prefixes = 0, used_prefixes = 0xFF\<rparr>
        (start_over 1 (mk_search_engine 0 0xFF 0 \<lparr>raw = (\<lambda>_. 0)(0 := 0x65)\<rparr>)))
     = Inr (True, \<lparr>raw = (\<lambda>_. 0)(0 := 0x66)\<rparr>) \<and>
   map_sum id (map_prod id get_candidate)
     (find_next_candidate \<lparr>detect_prefixes = 0, used_prefixes = 0xFF\<rparr>
        (start_over 1 (mk_search_engine 0 0xFF 0xFF \<lparr>raw = (\<lambda>_. 0)(0 := 0x65)\<rparr>)))
     = Inr (True, \<lparr>raw = (\<lambda>_. 0)(0 := 0x66)\<rparr>)"
  unfolding start_over_def mk_search_engine_def
  by (rule conjI [OF find_next_candidate_ignores_members])
     (simp add: find_next_candidate_skips_66 find_next_candidate_takes_66 get_candidate_def
        prefix_group_lut_ctor_def create_prefix_group_lut_nth_nat opcode_to_prefix_group_def)

text \<open>
  Claim C1 fails on the code in its third part. The engine is configured with the permitted
  set 0x04 (operand-size override only) and a maximum of one prefix. From the buffer
  \<open>25 00 ...\<close> its next candidate is \<open>26 00 ...\<close>: the byte 0x26 is classified as a segment
  override (group 1, count 1), and bit 1 of the engine's permitted set is not set. The
  rejection test reads the file-scope \<open>used_prefixes\<close> (0xFF here), never the member
  \<open>used_prefixes_m\<close> that the constructor stored.
\<close>

theorem permitted_set_of_engine_ignored:
  "find_next_candidate \<lparr>detect_prefixes = 0xFF, used_prefixes = 0xFF\<rparr>
     (start_over 1 (mk_search_engine 1 0x04 0xFF \<lparr>raw = (\<lambda>_. 0)(0 := 0x25)\<rparr>))
   = Inr (True, start_over 1 (mk_search_engine 1 0x04 0xFF \<lparr>raw = (\<lambda>_. 0)(0 := 0x26)\<rparr>)) \<and>
   count (analyze_prefixes \<lparr>detect_prefixes = 0xFF, used_prefixes = 0xFF\<rparr>
     (get_candidate (start_over 1 (mk_search_engine 1 0x04 0xFF \<lparr>raw = (\<lambda>_. 0)(0 := 0x26)\<rparr>))))
   = [0, 1, 0, 0, 0] \<and>
   used_prefixes_m (start_over 1 (mk_search_engine 1 0x04 0xFF \<lparr>raw = (\<lambda>_. 0)(0 := 0x26)\<rparr>))
     AND push_bit 1 1 = 0"
proof (intro conjI)
  show "find_next_candidate \<lparr>detect_prefixes = 0xFF, used_prefixes = 0xFF\<rparr>
     (start_over 1 (mk_search_engine 1 0x04 0xFF \<lparr>raw = (\<lambda>_. 0)(0 := 0x25)\<rparr>))
   = Inr (True, start_over 1 (mk_search_engine 1 0x04 0xFF \<lparr>raw = (\<lambda>_. 0)(0 := 0x26)\<rparr>))"
    unfolding start_over_def mk_search_engine_def
    by (subst find_next_candidate_unfold) (simp add: eval_simps)
  show "count (analyze_prefixes \<lparr>detect_prefixes = 0xFF, used_prefixes = 0xFF\<rparr>
     (get_candidate (start_over 1 (mk_search_engine 1 0x04 0xFF \<lparr>raw = (\<lambda>_. 0)(0 := 0x26)\<rparr>))))
   = [0, 1, 0, 0, 0]"
    unfolding start_over_def mk_search_engine_def get_candidate_def
    by (simp add: eval_simps)
  show "used_prefixes_m (start_over 1 (mk_search_engine 1 0x04 0xFF \<lparr>raw = (\<lambda>_. 0)(0 := 0x26)\<rparr>))
     AND push_bit 1 1 = 0"
    by (simp add: start_over_def mk_search_engine_def)
qed

section \<open>Properties of the paging bootstrap and of the exception entry\<close>

lemma is_aligned_22:
  "is_aligned (ucast (a :: u32)) 22 = Inr (unat a mod 4194304 = 0)"
proof -
  have m: "(push_bit (nat 22) 1 - 1 :: 64 word) = mask 22"
    by (simp add: mask_eq_exp_minus_1)
  have "((ucast a :: 64 word) AND mask 22 = 0) = (unat a mod 4194304 = 0)"
  proof -
    have "unat a < 2 ^ 64"
      by (rule order_less_le_trans [OF unsigned_less]) simp
    then have u: "unat (ucast a :: 64 word) = unat a"
      by (simp add: unsigned_ucast_eq take_bit_nat_eq_self)
    have "unat ((ucast a :: 64 word) AND mask 22) = unat (ucast a :: 64 word) mod 2 ^ 22"
      by (simp add: unat_mod_distrib take_bit_eq_mod flip: take_bit_eq_mask)
    then have "unat ((ucast a :: 64 word) AND mask 22) = unat a mod 2 ^ 22"
      by (simp only: u)
    then show ?thesis by (simp flip: unat_eq_0)
  qed
  then show ?thesis
    unfolding is_aligned_def m by auto
qed

text \<open>
  Claim C8. With an image start that is not a multiple of 4 MiB, \<open>setup_paging\<close> ends in
  the failed assertion ``Image needs to start on large page boundary'' with the machine
  exactly as it was given: no page directory entry written, CR3 not loaded, CR0 not
  changed, so the paging-enable bit is never set by this run.
\<close>

theorem setup_paging_misaligned_image:
  "unat (image_start E) mod 4194304 \<noteq> 0 \<Longrightarrow>
   setup_paging E s = Some (AssertionFailed ''Image needs to start on large page boundary'' s)"
  by (simp add: setup_paging_def is_aligned_22 Let_def)

lemma fill_page_table_unfold:
  "fill_page_table E t m d s =
     (if d \<le> 1024 then
        fill_page_table E t (m + 4096) (d + 1) (write32 (t + 4 * d) (m OR PTE_P E OR PTE_W E) s)
      else s)"
  by (subst fill_page_table.simps) simp

lemma unat_index_succ:
  "(d :: u32) \<le> 1024 \<Longrightarrow> unat (d + 1) = Suc (unat d)"
  by (simp add: word_le_nat_alt unat_word_ariths)

lemma fill_page_table_below:
  "unat k < unat d \<Longrightarrow> unat d \<le> 1025 \<Longrightarrow>
   mem (fill_page_table E t m d s) (t + 4 * k) = mem s (t + 4 * k)"
proof (induction E t m d s rule: fill_page_table.induct)
  case (1 E t m d s)
  show ?case
  proof (cases "d \<le> 1024")
    case True
    then have u: "unat (d + 1) = Suc (unat d)" by (rule unat_index_succ)
    have ne: "4 * k \<noteq> 4 * d"
    proof
      assume "4 * k = 4 * d"
      then have "unat (4 * k) = unat (4 * d)" by simp
      moreover have "unat (4 * k) = 4 * unat k" "unat (4 * d) = 4 * unat d"
        using "1.prems" by (simp_all add: unat_word_ariths)
      ultimately show False using "1.prems"(1) by simp
    qed
    have "mem (fill_page_table E t (m + 4096) (d + 1)
               (write32 (t + 4 * d) (m OR PTE_P E OR PTE_W E) s)) (t + 4 * k)
          = mem (write32 (t + 4 * d) (m OR PTE_P E OR PTE_W E) s) (t + 4 * k)"
      using True "1.prems" u by (intro "1.IH") (simp_all add: word_le_nat_alt)
    then show ?thesis
      using True ne by (subst fill_page_table_unfold) (simp add: write32_def)
  next
    case False
    then show ?thesis by (subst fill_page_table_unfold) simp
  qed
qed

lemma fill_page_table_writes:
  "d \<le> 1024 \<Longrightarrow>
   mem (fill_page_table E t m d s) (t + 4 * d) = m OR PTE_P E OR PTE_W E"
proof -
  assume d: "d \<le> 1024"
  then have u: "unat (d + 1) = Suc (unat d)" by (rule unat_index_succ)
  have "mem (fill_page_table E t (m + 4096) (d + 1)
               (write32 (t + 4 * d) (m OR PTE_P E OR PTE_W E) s)) (t + 4 * d)
        = mem (write32 (t + 4 * d) (m OR PTE_P E OR PTE_W E) s) (t + 4 * d)"
    using d u by (intro fill_page_table_below) (simp_all add: word_le_nat_alt)
  then show ?thesis
    using d by (subst fill_page_table_unfold) (simp add: write32_def)
qed

lemma fill_page_table_from:
  "unat d + n = 1024 \<Longrightarrow>
   mem (fill_page_table E t m d s) (t + 4096) = (m + 4096 * of_nat n) OR PTE_P E OR PTE_W E"
proof (induction n arbitrary: m d s)
  case 0
  then have "unat d = unat (1024 :: u32)" by simp
  then have "d = 1024" by (simp only: word_unat_eq_iff)
  then show ?case using fill_page_table_writes [of 1024 E t m s] by simp
next
  case (Suc n)
  then have d: "d \<le> 1024" by (simp add: word_le_nat_alt)
  then have u: "unat (d + 1) = Suc (unat d)" by (rule unat_index_succ)
  have "mem (fill_page_table E t (m + 4096) (d + 1)
              (write32 (t + 4 * d) (m OR PTE_P E OR PTE_W E) s)) (t + 4096)
        = (m + 4096 + 4096 * of_nat n) OR PTE_P E OR PTE_W E"
    using Suc.prems u by (intro Suc.IH) simp
  then show ?case
    using d by (subst fill_page_table_unfold) (simp add: algebra_simps)
qed

lemma mem_write32: "mem (write32 a v s) b = (if b = a then v else mem s b)"
  by (simp add: write32_def)

lemma example_fill:
  "PTE_P E = 1 \<Longrightarrow> PTE_W E = 2 \<Longrightarrow>
   mem (fill_page_table E 0x900000 0x400000 0 s) 0x901000 = 0x800003"
  using fill_page_table_from [of 0 1024 E "0x900000" "0x400000" s]
  by simp

lemma example_map_image:
  "map_image example_env 0x400000 0x900000 s =
     Some (write32 0x410004 0x900003 s)"
  apply (subst map_image.simps, simp add: example_env_def)
  apply (subst map_image.simps, simp add: example_env_def)
  done

lemma example_map_tables:
  "map_tables example_env 0x400000 0x900000 s =
     Some (fill_page_table example_env 0x900000 0x400000 0 s)"
  apply (subst map_tables.simps, simp add: example_env_def)
  apply (subst map_tables.simps, simp add: example_env_def)
  done

text \<open>
  Claim C10 fails on the code. The fill loop runs for \<open>d = 0, ..., 1024\<close>, 1025 entries: the
  last write goes to entry index 1024, the word at \<open>tablepos + 4096\<close>, with the value of the
  next 4 MiB. In the run on the example machine (one table at 0x900000) the word at
  0x901000, outside the table, holds 0x800003 when paging is enabled.
\<close>

theorem setup_paging_fill_overruns_table:
  "mem (fill_page_table E t m 0 s) (t + 4 * 1024) = (m + 4194304) OR PTE_P E OR PTE_W E \<and>
   (\<exists>s'. setup_paging example_env example_machine = Some (PagingEnabled s') \<and>
         mem s' (0x900000 + 4 * 1024) = 0x800003)"
proof
  show "mem (fill_page_table E t m 0 s) (t + 4 * 1024) = (m + 4194304) OR PTE_P E OR PTE_W E"
    using fill_page_table_from [of 0 1024 E t m s] by simp
next
  have a: "is_aligned (4194304 :: 64 word) 22 = Inr True"
    using is_aligned_22 [of "0x400000"] by simp
  have p: "(if (image_end example_env + push_bit 22 1) AND 0xFFF \<noteq> 0
            then (image_end example_env + push_bit 22 1 + 0xFFF) AND NOT 0xFFF
            else image_end example_env + push_bit 22 1) = 0x900000"
    by (simp add: example_env_def)
  have i: "image_start example_env = 0x400000" by (simp add: example_env_def)
  show "\<exists>s'. setup_paging example_env example_machine = Some (PagingEnabled s') \<and>
         mem s' (0x900000 + 4 * 1024) = 0x800003"
    unfolding setup_paging_def Let_def p i
    by (simp add: a example_map_image example_map_tables)
       (simp add: example_env_def get_user_page_def mem_write32 example_fill)
qed

theorem setup_paging_misaligned_image_witness:
  "setup_paging (example_env\<lparr>image_start := 0x00401000\<rparr>) example_machine
     = Some (AssertionFailed ''Image needs to start on large page boundary'' example_machine) \<and>
   cr0 example_machine AND CR0_PG example_env = 0"
  using setup_paging_misaligned_image [of "example_env\<lparr>image_start := 0x00401000\<rparr>" example_machine]
  by (simp add: example_env_def example_machine_def)

text \<open>
  Claim C4. \<open>irq_entry\<close> never returns normally. With a code segment selector of reduced
  privilege (\<open>cs AND 3\<close> not zero) and a continuation pending it resumes at the saved
  address on the saved stack pointer \<open>tss.esp0\<close>, clears the continuation and the capture
  pointer, and has copied the whole frame into the capture slot the caller supplied
  (when the pointer is not null), leaving every other frame and the console alone. In
  every other case, in particular a privileged fault with no continuation pending, it
  emits the diagnostic and halts, changing nothing else.
\<close>

theorem irq_entry_dispatch:
  "fst (irq_entry cr2 ef s) \<noteq> Returned \<and>
   (cs ef AND 3 \<noteq> 0 \<and> ring0_continuation s \<noteq> 0 \<longrightarrow>
      fst (irq_entry cr2 ef s) = Resumed (tss_esp0 s) (ring0_continuation s) \<and>
      ring0_continuation (snd (irq_entry cr2 ef s)) = 0 \<and>
      ring3_exception_frame (snd (irq_entry cr2 ef s)) = 0 \<and>
      (ring3_exception_frame s \<noteq> 0 \<longrightarrow>
         frame_at (snd (irq_entry cr2 ef s)) (ring3_exception_frame s) = ef) \<and>
      (\<forall>a. a \<noteq> ring3_exception_frame s \<longrightarrow>
         frame_at (snd (irq_entry cr2 ef s)) a = frame_at s a) \<and>
      tss_esp0 (snd (irq_entry cr2 ef s)) = tss_esp0 s \<and>
      console (snd (irq_entry cr2 ef s)) = console s) \<and>
   (\<not> (cs ef AND 3 \<noteq> 0 \<and> ring0_continuation s \<noteq> 0) \<longrightarrow>
      fst (irq_entry cr2 ef s) = Halted \<and>
      console (snd (irq_entry cr2 ef s))
        = console s @ print_exception cr2 ef @ [Str ''!!! We're dead...\<newline>''] \<and>
      ring0_continuation (snd (irq_entry cr2 ef s)) = ring0_continuation s \<and>
      ring3_exception_frame (snd (irq_entry cr2 ef s)) = ring3_exception_frame s \<and>
      frame_at (snd (irq_entry cr2 ef s)) = frame_at s \<and>
      tss_esp0 (snd (irq_entry cr2 ef s)) = tss_esp0 s)"
  by (simp add: irq_entry_def Let_def)

theorem irq_entry_dispatch_witness:
  "fst (irq_entry 0 user_fault pending_state) = Resumed 0x7FF0 0x400200 \<and>
   ring0_continuation (snd (irq_entry 0 user_fault pending_state)) = 0 \<and>
   ring3_exception_frame (snd (irq_entry 0 user_fault pending_state)) = 0 \<and>
   frame_at (snd (irq_entry 0 user_fault pending_state)) 0x7000 = user_fault \<and>
   fst (irq_entry 0xDEAD kernel_fault (pending_state\<lparr>ring0_continuation := 0\<rparr>)) = Halted \<and>
   console (snd (irq_entry 0xDEAD kernel_fault (pending_state\<lparr>ring0_continuation := 0\<rparr>)))
     = print_exception 0xDEAD kernel_fault @ [Str ''!!! We're dead...\<newline>'']"
proof -
  have u: "cs user_fault AND 3 \<noteq> 0 \<and> ring0_continuation pending_state \<noteq> 0"
    by (simp add: user_fault_def pending_state_def)
  have k: "\<not> (cs kernel_fault AND 3 \<noteq> 0 \<and>
               ring0_continuation (pending_state\<lparr>ring0_continuation := 0\<rparr>) \<noteq> 0)"
    by simp
  have p: "ring3_exception_frame pending_state = 0x7000" "tss_esp0 pending_state = 0x7FF0"
    "ring0_continuation pending_state = 0x400200" "console pending_state = []"
    by (simp_all add: pending_state_def)
  from irq_entry_dispatch [of 0 user_fault pending_state] u p
  have a: "fst (irq_entry 0 user_fault pending_state) = Resumed 0x7FF0 0x400200 \<and>
   ring0_continuation (snd (irq_entry 0 user_fault pending_state)) = 0 \<and>
   ring3_exception_frame (snd (irq_entry 0 user_fault pending_state)) = 0 \<and>
   frame_at (snd (irq_entry 0 user_fault pending_state)) 0x7000 = user_fault"
    by simp
  from irq_entry_dispatch [of "0xDEAD" kernel_fault "pending_state\<lparr>ring0_continuation := 0\<rparr>"] k p
  have b: "fst (irq_entry 0xDEAD kernel_fault (pending_state\<lparr>ring0_continuation := 0\<rparr>)) = Halted \<and>
   console (snd (irq_entry 0xDEAD kernel_fault (pending_state\<lparr>ring0_continuation := 0\<rparr>)))
     = print_exception 0xDEAD kernel_fault @ [Str ''!!! We're dead...\<newline>'']"
    by simp
  from a b show ?thesis by simp
qed

end
